theory Spec2Isabelle
  imports Complex_Main
begin

section \<open>Values: exceptions and numpy scalars\<close>

text \<open>
  The sampler of \<^verbatim>\<open>sirl/algorithms/inference_mcmc.py\<close> (and its twin in
  \<^verbatim>\<open>sirl/algorithms/birl/iterative_birl.py\<close>) works on Python and numpy floats.
  Finite floating-point values are idealised as real numbers; rounding is not modelled.
  What is modelled is the part of the float semantics that decides control flow and
  errors: a numpy scalar can be infinite or not-a-number, and numpy arithmetic produces
  these values (with a warning) where plain Python arithmetic would raise.
\<close>

datatype error = ValueError | IndexError | ZeroDivisionError

datatype npfloat = Finite real | PInf | NInf | NaN

text \<open>
  True division of two \<^verbatim>\<open>numpy.float64\<close> scalars. A zero divisor raises nothing: the
  quotient is \<^verbatim>\<open>nan\<close> for a zero dividend and an infinity otherwise (the zero is taken
  as positive; signed zeros are not modelled).
\<close>

definition np_div :: "real \<Rightarrow> real \<Rightarrow> npfloat" where
  "np_div a b =
     (if b \<noteq> 0 then Finite (a / b)
      else if a = 0 then NaN
      else if 0 < a then PInf else NInf)"

text \<open>
  Python's \<^verbatim>\<open>min(1, x)\<close>: the result is \<^verbatim>\<open>x\<close> when \<^verbatim>\<open>x < 1\<close> holds and \<^verbatim>\<open>1\<close>
  otherwise; every comparison with \<^verbatim>\<open>nan\<close> is false.
\<close>

fun py_min1 :: "npfloat \<Rightarrow> npfloat" where
  "py_min1 (Finite x) = (if x < 1 then Finite x else Finite 1)"
| "py_min1 PInf = Finite 1"
| "py_min1 NInf = NInf"
| "py_min1 NaN = Finite 1"

text \<open>
  \<^verbatim>\<open>x ** e\<close> for a numpy scalar base and a positive finite exponent (the only
  exponents \<^verbatim>\<open>_cooling\<close> produces). A negative base has a real power only for an
  integral exponent; numpy answers \<^verbatim>\<open>nan\<close> otherwise.
\<close>

definition integral :: "real \<Rightarrow> bool" where
  "integral e = (of_int \<lfloor>e\<rfloor> = e)"

fun np_pow :: "npfloat \<Rightarrow> real \<Rightarrow> npfloat" where
  "np_pow (Finite x) e =
     (if 0 \<le> x then Finite (x powr e)
      else if integral e then Finite (x ^ nat \<lfloor>e\<rfloor>)
      else NaN)"
| "np_pow PInf e = PInf"
| "np_pow NInf e = (if integral e \<and> odd \<lfloor>e\<rfloor> then NInf else PInf)"
| "np_pow NaN e = NaN"

text \<open>\<^verbatim>\<open>a > u\<close> and \<^verbatim>\<open>a <= b\<close> on numpy scalars.\<close>

fun np_gt :: "npfloat \<Rightarrow> real \<Rightarrow> bool" where
  "np_gt (Finite x) u = (u < x)"
| "np_gt PInf u = True"
| "np_gt NInf u = False"
| "np_gt NaN u = False"

fun np_le :: "npfloat \<Rightarrow> npfloat \<Rightarrow> bool" where
  "np_le NaN b = False"
| "np_le a NaN = False"
| "np_le NInf b = True"
| "np_le a PInf = True"
| "np_le (Finite x) (Finite y) = (x \<le> y)"
| "np_le a b = False"

section \<open>The acceptance ratio\<close>

text \<open>
  \<^verbatim>\<open>scipy.misc.logsumexp\<close> of a flat list: the logarithm of the sum of the
  exponentials. It takes the maximum of its argument first, which raises
  \<^verbatim>\<open>ValueError\<close> on an empty array.
\<close>

definition logsumexp :: "real list \<Rightarrow> error + real" where
  "logsumexp z = (if z = [] then Inl ValueError else Inr (ln (sum_list (map exp z))))"

text \<open>
  The three nested loops of \<^verbatim>\<open>_mh_ratio\<close> (and of \<^verbatim>\<open>_neg_loglk\<close>), each appending
  to the list \<^verbatim>\<open>z\<close>:
  \<^verbatim>\<open>
    z = []
    for q_e in QE:
        for QP_i in QPi:
            for q_i in QP_i:
                z.append(self._beta*(q_i - q_e))
  \<close>
\<close>

definition z_inner :: "real \<Rightarrow> real \<Rightarrow> real list \<Rightarrow> real list \<Rightarrow> real list" where
  "z_inner beta q_e QP_i z = fold (\<lambda>q_i z. z @ [beta * (q_i - q_e)]) QP_i z"

definition z_middle :: "real \<Rightarrow> real \<Rightarrow> real list list \<Rightarrow> real list \<Rightarrow> real list" where
  "z_middle beta q_e QPi z = fold (\<lambda>QP_i z. z_inner beta q_e QP_i z) QPi z"

definition z_list :: "real \<Rightarrow> real list \<Rightarrow> real list list \<Rightarrow> real list" where
  "z_list beta QE QPi = fold (\<lambda>q_e z. z_middle beta q_e QPi z) QE []"

text \<open>
  \<^verbatim>\<open>_mh_ratio(self, r, r_new, QE, QE_new, QPi, QPi_new)\<close>. The prior is an external
  collaborator: \<open>log_p\<close> stands for \<^verbatim>\<open>self._prior.log_p\<close>. \<^verbatim>\<open>np.sum\<close> and
  \<^verbatim>\<open>logsumexp\<close> return numpy scalars, so the final quotient is a numpy division.
\<close>

definition mh_ratio ::
  "(real list \<Rightarrow> real list) \<Rightarrow> real \<Rightarrow> real list \<Rightarrow> real list \<Rightarrow>
   real list \<Rightarrow> real list \<Rightarrow> real list list \<Rightarrow> real list list \<Rightarrow> error + npfloat" where
  "mh_ratio log_p beta r r_new QE QE_new QPi QPi_new =
     (let p_new = sum_list (log_p r_new);
          p = sum_list (log_p r)
      in case logsumexp (z_list beta QE QPi) of
           Inl e \<Rightarrow> Inl e
         | Inr l \<Rightarrow>
             (let lk = - l
              in case logsumexp (z_list beta QE_new QPi_new) of
                   Inl e \<Rightarrow> Inl e
                 | Inr l_new \<Rightarrow>
                     (let lk_new = - l_new
                      in Inr (np_div (lk_new + p_new) (lk + p)))))"

text \<open>
  The reading of the specification: one inner sequence of generated qualities per expert
  start-state, and each expert quality paired only with the generated trajectories of its
  own start-state.
\<close>

definition spec_z :: "real \<Rightarrow> real list \<Rightarrow> real list list \<Rightarrow> real list" where
  "spec_z beta QE QPi =
     concat (map (\<lambda>(q_e, QP_s). map (\<lambda>q_i. beta * (q_i - q_e)) QP_s) (zip QE QPi))"

definition spec_mh_ratio ::
  "(real list \<Rightarrow> real list) \<Rightarrow> real \<Rightarrow> real list \<Rightarrow> real list \<Rightarrow>
   real list \<Rightarrow> real list \<Rightarrow> real list list \<Rightarrow> real list list \<Rightarrow> real" where
  "spec_mh_ratio log_p beta r r_new QE QE_new QPi QPi_new =
     (- ln (sum_list (map exp (spec_z beta QE_new QPi_new))) + sum_list (log_p r_new)) /
     (- ln (sum_list (map exp (spec_z beta QE QPi))) + sum_list (log_p r))"

text \<open>
  The flat list the three loops build, written as one comprehension: every expert quality
  against every generated quality of every inner list.
\<close>

definition cross_z :: "real \<Rightarrow> real list \<Rightarrow> real list list \<Rightarrow> real list" where
  "cross_z beta QE QPi =
     concat (map (\<lambda>q_e. map (\<lambda>q_i. beta * (q_i - q_e)) (concat QPi)) QE)"

section \<open>Cooling\<close>

text \<open>\<^verbatim>\<open>_cooling(self, step)\<close>: \<^verbatim>\<open>5 + step / 50.0\<close>.\<close>

definition cooling :: "int \<Rightarrow> real" where
  "cooling step = 5 + real_of_int step / 50"

text \<open>
  The acceptance probability of one step of \<^verbatim>\<open>_policy_walk\<close>:
  \<^verbatim>\<open>
    accept_probability = min(1, mh_ratio)
    if self._tempered:
        accept_probability = min(1, mh_ratio) ** self._cooling(step)
  \<close>
\<close>

definition accept_probability :: "bool \<Rightarrow> npfloat \<Rightarrow> int \<Rightarrow> npfloat" where
  "accept_probability tempered ratio step =
     (if tempered then np_pow (py_min1 ratio) (cooling step) else py_min1 ratio)"

section \<open>The PolicyWalk proposal\<close>

text \<open>
  \<^verbatim>\<open>PolicyWalkProposal(dim, delta, bounded)\<close>. The two random choices of one loop
  iteration, \<^verbatim>\<open>choice([-self.delta, self.delta])\<close> and \<^verbatim>\<open>randint(self.dim)\<close>, are read
  from a tape of draws: at position \<open>k\<close> the first component tells whether
  \<^verbatim>\<open>+delta\<close> was chosen and the second is the dimension drawn.
\<close>

record PolicyWalkProposal =
  dim :: nat
  delta :: real
  bounded :: bool

type_synonym draws = "nat \<Rightarrow> bool \<times> nat"

text \<open>
  Arrays live in a store; an address is an index into it. \<^verbatim>\<open>np.array(loc)\<close> allocates a
  new array holding a copy of its argument.
\<close>

type_synonym store = "real list list"

definition np_array :: "store \<Rightarrow> nat \<Rightarrow> nat \<times> store" where
  "np_array h loc = (length h, h @ [h ! loc])"

text \<open>The step \<^verbatim>\<open>d\<close> a draw selects: \<^verbatim>\<open>self.delta\<close> or \<^verbatim>\<open>-self.delta\<close>.\<close>

definition signed_delta :: "PolicyWalkProposal \<Rightarrow> bool \<times> nat \<Rightarrow> real" where
  "signed_delta P x = (if fst x then delta P else - delta P)"

text \<open>
  The loop of \<^verbatim>\<open>__call__\<close>, on the array at address \<open>new_loc\<close>:
  \<^verbatim>\<open>
    while not changed:
        d = choice([-self.delta, self.delta])
        i = randint(self.dim)
        if self.bounded:
            if -1 <= new_loc[i]+d <= 1:
                new_loc[i] += d
                changed = True
        else:
            new_loc[i] += d
            changed = True
  \<close>
  \<^verbatim>\<open>randint\<close> raises \<^verbatim>\<open>ValueError\<close> for an empty range, and indexing beyond the
  array raises \<^verbatim>\<open>IndexError\<close>. The loop need not end: the result \<open>None\<close> stands for a
  call that never returns. A result carries the store and the position reached on the tape.
\<close>

partial_function (option) pw_loop ::
  "PolicyWalkProposal \<Rightarrow> draws \<Rightarrow> nat \<Rightarrow> store \<Rightarrow> nat \<Rightarrow> (error + store \<times> nat) option" where
  "pw_loop P tape k h new_loc =
     (let d = signed_delta P (tape k);
          i = snd (tape k)
      in if dim P = 0 then Some (Inl ValueError)
         else if length (h ! new_loc) \<le> i then Some (Inl IndexError)
         else if bounded P then
           (if - 1 \<le> h ! new_loc ! i + d \<and> h ! new_loc ! i + d \<le> 1
            then Some (Inr (h[new_loc := (h ! new_loc)[i := h ! new_loc ! i + d]], Suc k))
            else pw_loop P tape (Suc k) h new_loc)
         else Some (Inr (h[new_loc := (h ! new_loc)[i := h ! new_loc ! i + d]], Suc k)))"

text \<open>
  \<^verbatim>\<open>__call__(self, loc)\<close> on the store: the result is the address of the returned array,
  the store and the tape position.
\<close>

definition PolicyWalkProposal_call_store ::
  "PolicyWalkProposal \<Rightarrow> draws \<Rightarrow> nat \<Rightarrow> store \<Rightarrow> nat \<Rightarrow> (error + nat \<times> store \<times> nat) option" where
  "PolicyWalkProposal_call_store P tape k h loc =
     (case np_array h loc of
        (new_loc, h1) \<Rightarrow>
          (case pw_loop P tape k h1 new_loc of
             None \<Rightarrow> None
           | Some (Inl e) \<Rightarrow> Some (Inl e)
           | Some (Inr (h2, k')) \<Rightarrow> Some (Inr (new_loc, h2, k'))))"

text \<open>
  The same call seen by a caller that only looks at values: the argument is put in a
  store of its own and the returned array is read back.
\<close>

definition PolicyWalkProposal_call ::
  "PolicyWalkProposal \<Rightarrow> draws \<Rightarrow> nat \<Rightarrow> real list \<Rightarrow> (error + real list \<times> nat) option" where
  "PolicyWalkProposal_call P tape k loc =
     (case PolicyWalkProposal_call_store P tape k [loc] 0 of
        None \<Rightarrow> None
      | Some (Inl e) \<Rightarrow> Some (Inl e)
      | Some (Inr (a, h, k')) \<Rightarrow> Some (Inr (h ! a, k')))"

text \<open>A finite sequence of chained calls: each call starts from the previous result.\<close>

fun call_chain ::
  "PolicyWalkProposal \<Rightarrow> draws \<Rightarrow> nat \<Rightarrow> nat \<Rightarrow> real list \<Rightarrow> (error + real list \<times> nat) option" where
  "call_chain P tape 0 k loc = Some (Inr (loc, k))"
| "call_chain P tape (Suc n) k loc =
     (case PolicyWalkProposal_call P tape k loc of
        None \<Rightarrow> None
      | Some (Inl e) \<Rightarrow> Some (Inl e)
      | Some (Inr (loc', k')) \<Rightarrow> call_chain P tape n k' loc')"

definition in_unit_box :: "real list \<Rightarrow> bool" where
  "in_unit_box v = list_all (\<lambda>x. - 1 \<le> x \<and> x \<le> 1) v"

text \<open>
  A tape is fair from position \<open>k\<close> on when every pair of a sign and a dimension below
  \<open>n\<close> is drawn at some later position, as happens with probability one.
\<close>

definition fair :: "draws \<Rightarrow> nat \<Rightarrow> nat \<Rightarrow> bool" where
  "fair tape n k = (\<forall>s i. i < n \<longrightarrow> (\<exists>j. k \<le> j \<and> tape j = (s, i)))"

text \<open>
  What a returning run of the loop guarantees about its result: an error only for an empty
  range of dimensions or a draw outside the array; otherwise exactly one component of the
  array at \<open>a\<close> is changed, by the step of the last draw read, which is within the
  bounds when the proposal is bounded.
\<close>

definition pw_post :: "PolicyWalkProposal \<Rightarrow> draws \<Rightarrow> nat \<Rightarrow> store \<Rightarrow> nat \<Rightarrow> (error + store \<times> nat) \<Rightarrow> bool" where
  "pw_post P tape k h a y =
     (case y of
        Inl e \<Rightarrow> dim P = 0 \<or> (\<exists>j. length (h ! a) \<le> snd (tape j))
      | Inr (h', k') \<Rightarrow>
          k < k' \<and> snd (tape (k' - 1)) < length (h ! a) \<and>
          h' = h[a := (h ! a)[snd (tape (k' - 1)) :=
                   h ! a ! snd (tape (k' - 1)) + signed_delta P (tape (k' - 1))]] \<and>
          (bounded P \<longrightarrow> - 1 \<le> h ! a ! snd (tape (k' - 1)) + signed_delta P (tape (k' - 1)) \<and>
              h ! a ! snd (tape (k' - 1)) + signed_delta P (tape (k' - 1)) \<le> 1))"

text \<open>
  A vector is stuck when no step of \<open>\<plusminus>delta\<close> keeps any coordinate within
  \<open>[-1, 1]\<close>; a draw is valid for a vector when its step does.
\<close>

definition stuck :: "PolicyWalkProposal \<Rightarrow> real list \<Rightarrow> bool" where
  "stuck P v = (\<forall>i<length v. \<not> (- 1 \<le> v ! i + delta P \<and> v ! i + delta P \<le> 1) \<and>
                               \<not> (- 1 \<le> v ! i - delta P \<and> v ! i - delta P \<le> 1))"

definition valid_draw :: "PolicyWalkProposal \<Rightarrow> real list \<Rightarrow> bool \<times> nat \<Rightarrow> bool" where
  "valid_draw P v x = (- 1 \<le> v ! snd x + signed_delta P x \<and> v ! snd x + signed_delta P x \<le> 1)"

section \<open>The sampler\<close>

text \<open>Python's \<^verbatim>\<open>int(x)\<close> on a float truncates towards zero.\<close>

definition py_int :: "real \<Rightarrow> int" where
  "py_int x = (if 0 \<le> x then \<lfloor>x\<rfloor> else \<lceil>x\<rceil>)"

text \<open>
  Where a float is truncated to an integer, the rounding of the operations before the
  truncation can change the result by a whole unit, so there every float operation is
  followed by \<open>fl\<close>, the rounding of the machine arithmetic to a double. What is used
  of it is what holds of IEEE 754 rounding to nearest: it is monotone, and the integers
  of magnitude up to \<open>2^53\<close> are doubles. Everywhere else floats are read as reals.
\<close>

definition rounding :: "(real \<Rightarrow> real) \<Rightarrow> bool" where
  "rounding fl = (mono fl \<and> (\<forall>k::int. \<bar>k\<bar> \<le> 2 ^ 53 \<longrightarrow> fl (real_of_int k) = real_of_int k))"

text \<open>
  The fields of \<^verbatim>\<open>TBIRLPolicyWalk\<close> the sampler reads (\<^verbatim>\<open>self._delta\<close>, \<^verbatim>\<open>self._rmax\<close>,
  \<^verbatim>\<open>self._mcmc_iter\<close>, \<^verbatim>\<open>self._burn\<close>, \<^verbatim>\<open>self._tempered\<close>, \<^verbatim>\<open>self._beta\<close>), the reward
  dimension, and its external collaborators as functions: the prior (called, and its
  \<^verbatim>\<open>log_p\<close>) and the two trajectory-quality evaluators of the base class, which are not
  part of these sources. \<open>'g\<close> is the type of the batch of generated trajectories.
\<close>

record 'g TBIRLPolicyWalk =
  s_delta :: real
  s_rmax :: real
  s_mcmc_iter :: int
  s_burn :: real
  s_tempered :: bool
  s_beta :: real
  rdim :: nat
  prior_call :: "real list \<Rightarrow> real list"
  prior_log_p :: "real list \<Rightarrow> real list"
  expert_trajectory_quality :: "real list \<Rightarrow> real list"
  generated_trajectory_quality :: "real list \<Rightarrow> 'g \<Rightarrow> real list list"

text \<open>
  \<^verbatim>\<open>initialize_reward\<close> of \<^verbatim>\<open>inference_mcmc.py\<close>:
  \<^verbatim>\<open>
    loc = [-self._rmax + i * self._delta
           for i in range(int(self._rmax / self._delta + 1))]
    r = [loc[randrange(int(self._rmax / self._delta + 1))]
         for _ in range(rdim)]
  \<close>
  The number of grid points is the truncation of a float, computed by a division and an
  addition, each rounded. The draw of \<^verbatim>\<open>randrange\<close> for dimension \<open>j\<close> is \<open>rr j\<close>;
  \<^verbatim>\<open>randrange\<close> raises \<^verbatim>\<open>ValueError\<close> on an empty range, and the float division raises
  on a zero step.
\<close>

definition grid_size :: "(real \<Rightarrow> real) \<Rightarrow> real \<Rightarrow> real \<Rightarrow> int" where
  "grid_size fl rmax step = py_int (fl (fl (rmax / step) + 1))"

definition reward_grid :: "(real \<Rightarrow> real) \<Rightarrow> real \<Rightarrow> real \<Rightarrow> real list" where
  "reward_grid fl rmax step =
     map (\<lambda>i. - rmax + real i * step) [0..<nat (grid_size fl rmax step)]"

fun draw_rewards :: "real list \<Rightarrow> int \<Rightarrow> (nat \<Rightarrow> nat) \<Rightarrow> nat list \<Rightarrow> error + real list" where
  "draw_rewards loc n rr [] = Inr []"
| "draw_rewards loc n rr (j # js) =
     (if n \<le> 0 then Inl ValueError
      else if length loc \<le> rr j then Inl IndexError
      else case draw_rewards loc n rr js of
             Inl e \<Rightarrow> Inl e
           | Inr rs \<Rightarrow> Inr (loc ! rr j # rs))"

text \<open>
  With tempering, every dimension is replaced by the maximum of the prior at the draw:
  \<^verbatim>\<open>
    if self._tempered:
        prior = self._prior(reward)
        reward = np.array([max(prior) for _ in range(rdim)])
  \<close>
\<close>

definition temper :: "(real list \<Rightarrow> real list) \<Rightarrow> nat \<Rightarrow> real list \<Rightarrow> error + real list" where
  "temper prior n reward =
     (if n = 0 then Inr []
      else case prior reward of
             [] \<Rightarrow> Inl ValueError
           | p # ps \<Rightarrow> Inr (replicate n (fold max ps p)))"

definition initialize_reward ::
  "(real \<Rightarrow> real) \<Rightarrow> 'g TBIRLPolicyWalk \<Rightarrow> (nat \<Rightarrow> nat) \<Rightarrow> error + real list" where
  "initialize_reward fl S rr =
     (if s_delta S = 0 then Inl ZeroDivisionError
      else case draw_rewards (reward_grid fl (s_rmax S) (s_delta S))
                  (grid_size fl (s_rmax S) (s_delta S)) rr [0..<rdim S] of
             Inl e \<Rightarrow> Inl e
           | Inr reward \<Rightarrow>
               if s_tempered S then temper (prior_call S) (rdim S) reward else Inr reward)"

text \<open>
  \<^verbatim>\<open>initialize_reward\<close> of \<^verbatim>\<open>birl/iterative_birl.py\<close> draws
  \<^verbatim>\<open>np.random.uniform(-self._rmax, self._rmax)\<close> per dimension instead; numpy computes
  it as \<open>low + (high - low) * u\<close> from a draw \<open>u\<close> of \<open>[0, 1)\<close>, here \<open>us j\<close>.
\<close>

definition np_uniform :: "real \<Rightarrow> real \<Rightarrow> real \<Rightarrow> real" where
  "np_uniform low high u = low + (high - low) * u"

definition initialize_reward_birl :: "'g TBIRLPolicyWalk \<Rightarrow> (nat \<Rightarrow> real) \<Rightarrow> error + real list" where
  "initialize_reward_birl S us =
     (let reward = map (\<lambda>j. np_uniform (- s_rmax S) (s_rmax S) (us j)) [0..<rdim S]
      in if s_tempered S then temper (prior_call S) (rdim S) reward else Inr reward)"

text \<open>
  A small configuration for concrete runs: two reward dimensions, \<open>Rmax = 1\<close>, step
  \<open>0.5\<close>, two steps of which the first is burnt, a flat log-prior of \<open>-1\<close> per
  dimension, the sum of the reward as the quality of the one expert trajectory and the
  quality \<open>0\<close> for the one generated trajectory.
\<close>

definition example_sampler :: "unit TBIRLPolicyWalk" where
  "example_sampler =
     \<lparr>s_delta = 1 / 2, s_rmax = 1, s_mcmc_iter = 2, s_burn = 50, s_tempered = False,
      s_beta = 1, rdim = 2, prior_call = (\<lambda>r. r),
      prior_log_p = (\<lambda>r. map (\<lambda>x. - 1) r),
      expert_trajectory_quality = (\<lambda>r. [sum_list r]),
      generated_trajectory_quality = (\<lambda>r g. [[0]])\<rparr>"

section \<open>The PolicyWalk chain\<close>

text \<open>
  The diagnostics dictionary \<^verbatim>\<open>self.data\<close>, one list per key.
\<close>

record diagnostics =
  qloss :: "real list"
  trace :: "real list list"
  walk :: "real list list"
  accept_ratios :: "nat list"
  iter_rewards :: "real list list"

text \<open>
  The random sources of one \<^verbatim>\<open>_policy_walk\<close>: the \<^verbatim>\<open>randrange\<close> draws of the initial
  reward, the tape of the proposal, and the \<^verbatim>\<open>uniform(0, 1)\<close> draw of each step.
\<close>

record rng =
  init_draws :: "nat \<Rightarrow> nat"
  prop_draws :: draws
  unif :: "int \<Rightarrow> real"

text \<open>
  The arguments of one call of \<^verbatim>\<open>_mh_ratio(self, r, r_new, QE, QE_new, QPi, QPi_new)\<close>.
\<close>

record mh_call =
  c_r :: "real list"
  c_r_new :: "real list"
  c_QE :: "real list"
  c_QE_new :: "real list"
  c_QPi :: "real list list"
  c_QPi_new :: "real list list"

text \<open>
  \<^verbatim>\<open>_mh_ratio\<close> with a log of its calls: it returns what \<^verbatim>\<open>_mh_ratio\<close> returns, and
  appends the arguments it was called with to the log. The log is not a variable of the
  program; it records the calls the program makes, so that statements about every call
  can be made.
\<close>

definition mh_ratio_logged ::
  "(real list \<Rightarrow> real list) \<Rightarrow> real \<Rightarrow> real list \<Rightarrow> real list \<Rightarrow>
   real list \<Rightarrow> real list \<Rightarrow> real list list \<Rightarrow> real list list \<Rightarrow> mh_call list \<Rightarrow>
   (error + npfloat) \<times> mh_call list" where
  "mh_ratio_logged log_p beta r r_new QE QE_new QPi QPi_new cs =
     (mh_ratio log_p beta r r_new QE QE_new QPi QPi_new,
      cs @ [\<lparr>c_r = r, c_r_new = r_new, c_QE = QE, c_QE_new = QE_new,
              c_QPi = QPi, c_QPi_new = QPi_new\<rparr>])"

text \<open>The state of the loop: \<^verbatim>\<open>r_mean\<close>, the diagnostics, the tape position, the log.\<close>

record walk_state =
  r_mean :: "real list"
  data :: diagnostics
  pos :: nat
  mh_calls :: "mh_call list"

text \<open>
  \<^verbatim>\<open>_iterative_reward_mean(self, r_mean, r_new, step)\<close>:
  \<^verbatim>\<open>
    r_mean = [((step - 1) / float(step)) * m_r + 1.0 / step * r
              for m_r, r in zip(r_mean, r_new)]
  \<close>
\<close>

definition iterative_reward_mean :: "real list \<Rightarrow> real list \<Rightarrow> int \<Rightarrow> error + real list" where
  "iterative_reward_mean rm r_new step =
     (if step = 0 then Inl ZeroDivisionError
      else Inr (map (\<lambda>(m_r, r). ((real_of_int step - 1) / real_of_int step) * m_r
                                 + 1 / real_of_int step * r)
                    (zip rm r_new)))"

text \<open>
  \<^verbatim>\<open>burn_point = int(self._mcmc_iter * self._burn / 100)\<close>: the integer is converted to
  a float, multiplied and divided, each with its rounding, and the result truncated.
\<close>

definition burn_point :: "(real \<Rightarrow> real) \<Rightarrow> int \<Rightarrow> real \<Rightarrow> int" where
  "burn_point fl mcmc_iter burn = py_int (fl (fl (fl (real_of_int mcmc_iter) * burn) / 100))"

text \<open>
  \<^verbatim>\<open>ql = sum([sum(Qe - Qp for Qe, Qp in zip(QE, Q_i)) for Q_i in QPi])\<close>
\<close>

definition qloss_value :: "real list \<Rightarrow> real list list \<Rightarrow> real" where
  "qloss_value QE QPi = sum_list (map (\<lambda>Q_i. sum_list (map (\<lambda>(Qe, Qp). Qe - Qp) (zip QE Q_i))) QPi)"

text \<open>
  The bookkeeping of one step:
  \<^verbatim>\<open>
    if accept_probability > uniform(0, 1):
        r_mean = self._iterative_reward_mean(r_mean, r_new, step)
        self.data['accept_ratios'].append(1)
    if step > burn_point:
        self.data['trace'].append(r_mean)
        self.data['walk'].append(r_new)
  \<close>
\<close>

definition record_accept :: "bool \<Rightarrow> diagnostics \<Rightarrow> diagnostics" where
  "record_accept accepted d =
     (if accepted then d\<lparr>accept_ratios := accept_ratios d @ [1]\<rparr> else d)"

definition record_sample :: "int \<Rightarrow> int \<Rightarrow> real list \<Rightarrow> real list \<Rightarrow> diagnostics \<Rightarrow> diagnostics" where
  "record_sample bp step rm r_new d =
     (if bp < step then d\<lparr>trace := trace d @ [rm], walk := walk d @ [r_new]\<rparr> else d)"

text \<open>
  The body of the loop of \<^verbatim>\<open>_policy_walk\<close> for one \<open>step\<close>:
  \<^verbatim>\<open>
    r_new = p_dist(loc=r_mean)
    QE_new = self._expert_trajectory_quality(r_new)
    QPi_new = self._generated_trajectory_quality(r_new, g_trajs)
    mh_ratio = self._mh_ratio(r_mean, r_new, QE, QE_new, QPi, QPi_new)
  \<close>
  and then the acceptance test and the bookkeeping. \<open>QE\<close> and \<open>QPi\<close> are the
  variables of that name, assigned before the loop; the progress print is left out.
\<close>

definition policy_walk_step ::
  "'g TBIRLPolicyWalk \<Rightarrow> 'g \<Rightarrow> rng \<Rightarrow> PolicyWalkProposal \<Rightarrow> real list \<Rightarrow> real list list \<Rightarrow>
   int \<Rightarrow> int \<Rightarrow> walk_state \<Rightarrow> (error + walk_state) option" where
  "policy_walk_step S g R p_dist QE QPi bp step st =
     (case PolicyWalkProposal_call p_dist (prop_draws R) (pos st) (r_mean st) of
        None \<Rightarrow> None
      | Some (Inl e) \<Rightarrow> Some (Inl e)
      | Some (Inr (r_new, k')) \<Rightarrow>
          (let QE_new = expert_trajectory_quality S r_new;
               QPi_new = generated_trajectory_quality S r_new g
           in case mh_ratio_logged (prior_log_p S) (s_beta S) (r_mean st) r_new
                     QE QE_new QPi QPi_new (mh_calls st) of
                (Inl e, cs) \<Rightarrow> Some (Inl e)
              | (Inr ratio, cs) \<Rightarrow>
                  (let accepted = np_gt (accept_probability (s_tempered S) ratio step) (unif R step)
                   in case (if accepted then iterative_reward_mean (r_mean st) r_new step
                            else Inr (r_mean st)) of
                        Inl e \<Rightarrow> Some (Inl e)
                      | Inr rm \<Rightarrow>
                          Some (Inr \<lparr>r_mean = rm,
                                     data = record_sample bp step rm r_new
                                              (record_accept accepted (data st)),
                                     pos = k',
                                     mh_calls = cs\<rparr>))))"

text \<open>\<^verbatim>\<open>for step in range(1, self._mcmc_iter+1)\<close>, over the list of its steps.\<close>

fun policy_walk_loop ::
  "'g TBIRLPolicyWalk \<Rightarrow> 'g \<Rightarrow> rng \<Rightarrow> PolicyWalkProposal \<Rightarrow> real list \<Rightarrow> real list list \<Rightarrow>
   int \<Rightarrow> int list \<Rightarrow> walk_state \<Rightarrow> (error + walk_state) option" where
  "policy_walk_loop S g R p_dist QE QPi bp [] st = Some (Inr st)"
| "policy_walk_loop S g R p_dist QE QPi bp (step # steps) st =
     (case policy_walk_step S g R p_dist QE QPi bp step st of
        None \<Rightarrow> None
      | Some (Inl e) \<Rightarrow> Some (Inl e)
      | Some (Inr st') \<Rightarrow> policy_walk_loop S g R p_dist QE QPi bp steps st')"

text \<open>
  \<^verbatim>\<open>_policy_walk(self, g_trajs)\<close>, from the diagnostics \<open>d\<close> found at entry:
  \<^verbatim>\<open>
    r = self.initialize_reward()
    r_mean = deepcopy(r)
    p_dist = PolicyWalkProposal(r.shape[0], self._delta, bounded=True)
    QE = self._expert_trajectory_quality(r)
    QPi = self._generated_trajectory_quality(r, g_trajs)
    ql = sum([sum(Qe - Qp for Qe, Qp in zip(QE, Q_i)) for Q_i in QPi])
    self.data['qloss'].append(ql)
    burn_point = int(self._mcmc_iter * self._burn / 100)
  \<close>
  then the loop, and \<^verbatim>\<open>self.data['iter_rewards'].append(r_mean)\<close>. The result is the
  returned \<^verbatim>\<open>r_mean\<close> with the final state.
\<close>

definition policy_walk ::
  "(real \<Rightarrow> real) \<Rightarrow> 'g TBIRLPolicyWalk \<Rightarrow> 'g \<Rightarrow> rng \<Rightarrow> diagnostics \<Rightarrow>
   (error + real list \<times> walk_state) option" where
  "policy_walk fl S g R d =
     (case initialize_reward fl S (init_draws R) of
        Inl e \<Rightarrow> Some (Inl e)
      | Inr r \<Rightarrow>
          (let p_dist = \<lparr>dim = length r, delta = s_delta S, bounded = True\<rparr>;
               QE = expert_trajectory_quality S r;
               QPi = generated_trajectory_quality S r g;
               d1 = d\<lparr>qloss := qloss d @ [qloss_value QE QPi]\<rparr>;
               bp = burn_point fl (s_mcmc_iter S) (s_burn S)
           in case policy_walk_loop S g R p_dist QE QPi bp [1..s_mcmc_iter S]
                     \<lparr>r_mean = r, data = d1, pos = 0, mh_calls = []\<rparr> of
                None \<Rightarrow> None
              | Some (Inl e) \<Rightarrow> Some (Inl e)
              | Some (Inr st) \<Rightarrow>
                  Some (Inr (r_mean st,
                     st\<lparr>data := (data st)\<lparr>iter_rewards := iter_rewards (data st) @ [r_mean st]\<rparr>\<rparr>))))"


text \<open>
  What one returning step of the loop does to the state: there is a proposal \<open>r_new\<close>
  of the dimension of \<^verbatim>\<open>r_mean\<close> and a ratio such that the log grows by the call
  of \<^verbatim>\<open>_mh_ratio\<close> that returned the ratio; when the acceptance test on it succeeds
  \<^verbatim>\<open>r_mean\<close> becomes the incremental mean and an accept event is recorded, otherwise
  both are unchanged; and the trace and the walk grow by one entry after the burn-in.
\<close>

definition step_post ::
  "'g TBIRLPolicyWalk \<Rightarrow> 'g \<Rightarrow> rng \<Rightarrow> real list \<Rightarrow> real list list \<Rightarrow> int \<Rightarrow> int \<Rightarrow>
   walk_state \<Rightarrow> walk_state \<Rightarrow> bool" where
  "step_post S g R QE QPi bp step st st' =
     (\<exists>r_new ratio.
        mh_calls st' = mh_calls st @
          [\<lparr>c_r = r_mean st, c_r_new = r_new, c_QE = QE,
            c_QE_new = expert_trajectory_quality S r_new, c_QPi = QPi,
            c_QPi_new = generated_trajectory_quality S r_new g\<rparr>] \<and>
        length r_new = length (r_mean st) \<and>
        mh_ratio (prior_log_p S) (s_beta S) (r_mean st) r_new QE
          (expert_trajectory_quality S r_new) QPi (generated_trajectory_quality S r_new g)
          = Inr ratio \<and>
        (if np_gt (accept_probability (s_tempered S) ratio step) (unif R step)
         then iterative_reward_mean (r_mean st) r_new step = Inr (r_mean st') \<and>
              accept_ratios (data st') = accept_ratios (data st) @ [1]
         else r_mean st' = r_mean st \<and> accept_ratios (data st') = accept_ratios (data st)) \<and>
        trace (data st') = trace (data st) @ (if bp < step then [r_mean st'] else []) \<and>
        walk (data st') = walk (data st) @ (if bp < step then [r_new] else []))"


text \<open>
  Random draws for a concrete run of the chain (grid point \<open>j\<close> for dimension \<open>j\<close>,
  the \<open>k\<close>-th proposal draw \<open>+delta\<close> on dimension \<open>k\<close>, uniform draws of \<open>1/2\<close>),
  empty diagnostics, and the state that run ends in.
\<close>

definition example_rng :: rng where
  "example_rng = \<lparr>init_draws = (\<lambda>j. j), prop_draws = (\<lambda>k. (True, k)), unif = (\<lambda>_. 1 / 2)\<rparr>"

definition no_diagnostics :: diagnostics where
  "no_diagnostics = \<lparr>qloss = [], trace = [], walk = [], accept_ratios = [], iter_rewards = []\<rparr>"

definition example_calls :: "mh_call list" where
  "example_calls =
     [\<lparr>c_r = [- 1, - 1 / 2], c_r_new = [- 1 / 2, - 1 / 2], c_QE = [- 3 / 2], c_QE_new = [- 1],
       c_QPi = [[0]], c_QPi_new = [[0]]\<rparr>,
      \<lparr>c_r = [- 1 / 2, - 1 / 2], c_r_new = [- 1 / 2, 0], c_QE = [- 3 / 2], c_QE_new = [- 1 / 2],
       c_QPi = [[0]], c_QPi_new = [[0]]\<rparr>]"

definition example_final :: walk_state where
  "example_final =
     \<lparr>r_mean = [- 1 / 2, - 1 / 4],
      data = \<lparr>qloss = [- 3 / 2], trace = [[- 1 / 2, - 1 / 4]], walk = [[- 1 / 2, 0]],
              accept_ratios = [1, 1], iter_rewards = [[- 1 / 2, - 1 / 4]]\<rparr>,
      pos = 2,
      mh_calls = example_calls\<rparr>"

text \<open>
  A log of calls follows the running mean from \<open>m\<close> over a list of steps when it holds
  one call per step and each call's current reward \<open>r\<close> is the running mean at that
  step: \<open>m\<close> itself at first, then, after each call, the incremental mean if the
  acceptance test on the ratio of that call succeeds, and the unchanged mean otherwise.
\<close>

fun follows :: "'g TBIRLPolicyWalk \<Rightarrow> rng \<Rightarrow> int list \<Rightarrow> real list \<Rightarrow> mh_call list \<Rightarrow> bool" where
  "follows S R [] m cs = (cs = [])"
| "follows S R (s # ss) m [] = False"
| "follows S R (s # ss) m (c # cs) =
     (c_r c = m \<and>
      (case mh_ratio (prior_log_p S) (s_beta S) (c_r c) (c_r_new c) (c_QE c) (c_QE_new c)
              (c_QPi c) (c_QPi_new c) of
         Inl e \<Rightarrow> False
       | Inr ratio \<Rightarrow>
           if np_gt (accept_probability (s_tempered S) ratio s) (unif R s)
           then (case iterative_reward_mean m (c_r_new c) s of
                   Inl e \<Rightarrow> False
                 | Inr m' \<Rightarrow> follows S R ss m' cs)
           else follows S R ss m cs))"

section \<open>Properties of the acceptance ratio\<close>

lemma z_inner_eq: "z_inner beta q_e QP_i z = z @ map (\<lambda>q_i. beta * (q_i - q_e)) QP_i"
  unfolding z_inner_def by (induction QP_i arbitrary: z) simp_all

lemma z_middle_eq:
  "z_middle beta q_e QPi z = z @ map (\<lambda>q_i. beta * (q_i - q_e)) (concat QPi)"
  unfolding z_middle_def by (induction QPi arbitrary: z) (simp_all add: z_inner_eq)

lemma z_outer_eq:
  "fold (\<lambda>q_e z. z_middle beta q_e QPi z) QE z = z @ cross_z beta QE QPi"
  by (induction QE arbitrary: z) (simp_all add: z_middle_eq cross_z_def)

lemma z_list_eq: "z_list beta QE QPi = cross_z beta QE QPi"
  unfolding z_list_def by (simp add: z_outer_eq)

lemma cross_z_Nil: "cross_z beta QE QPi = [] \<longleftrightarrow> QE = [] \<or> concat QPi = []"
  unfolding cross_z_def by (induction QE) auto

lemma ln4: "ln (4::real) = 2 * ln 2"
  using ln_realpow [of "2::real" 2] by simp

lemma ln8: "ln (8::real) = 3 * ln 2"
  using ln_realpow [of "2::real" 3] by simp

text \<open>
  C1, as stated, pairs each expert quality only with the generated trajectories of its own
  start-state. The loops of \<^verbatim>\<open>_mh_ratio\<close> pair it with every generated quality: with
  two start-states, two generated trajectories each, all qualities zero and a prior whose
  log-density is \<open>x * ln 2\<close>, the list has eight entries instead of four, and the code
  returns \<open>4 / 3\<close> where the stated formula gives \<open>3 / 2\<close>.
\<close>

theorem mh_ratio_matched_pairs_counterexample:
  "mh_ratio (map (\<lambda>x. x * ln 2)) 1 [0] [- 1] [0, 0] [0, 0] [[0, 0], [0, 0]] [[0, 0], [0, 0]]
     = Inr (Finite (4 / 3))
   \<and> spec_mh_ratio (map (\<lambda>x. x * ln 2)) 1 [0] [- 1] [0, 0] [0, 0]
       [[0, 0], [0, 0]] [[0, 0], [0, 0]] = 3 / 2"
  by (simp add: mh_ratio_def logsumexp_def z_list_def z_middle_def z_inner_def np_div_def
      spec_mh_ratio_def spec_z_def ln4 ln8)

text \<open>
  C1 (amended): for non-empty quality lists and a non-zero denominator, \<^verbatim>\<open>_mh_ratio\<close>
  returns \<open>(lk_new + p_new) / (lk + p)\<close>, where \<open>p\<close> and \<open>p_new\<close> are the sums of the
  prior's log-densities at \<open>r\<close> and \<open>r_new\<close>, and \<open>lk\<close> is minus the logarithm of the sum
  of the exponentials of \<open>beta * (q_i - q_e)\<close> over every expert quality \<open>q_e\<close> of
  \<open>QE\<close> and every generated quality \<open>q_i\<close> of every inner list of \<open>QPi\<close> (the full
  cross product, whatever the start-state); \<open>lk_new\<close> likewise from \<open>QE_new\<close> and
  \<open>QPi_new\<close>.
\<close>

theorem mh_ratio_cross_product:
  assumes "QE \<noteq> []" "concat QPi \<noteq> []" "QE_new \<noteq> []" "concat QPi_new \<noteq> []"
    and "- ln (sum_list (map exp (cross_z beta QE QPi))) + sum_list (log_p r) \<noteq> 0"
  shows "mh_ratio log_p beta r r_new QE QE_new QPi QPi_new =
     Inr (Finite ((- ln (sum_list (map exp (cross_z beta QE_new QPi_new))) + sum_list (log_p r_new)) /
                  (- ln (sum_list (map exp (cross_z beta QE QPi))) + sum_list (log_p r))))"
  using assms
  by (simp add: mh_ratio_def logsumexp_def z_list_eq cross_z_Nil np_div_def)

theorem mh_ratio_cross_product_witness:
  "mh_ratio (map (\<lambda>x. x * ln 2)) 1 [0] [- 1] [0, 0] [0, 0] [[0, 0], [0, 0]] [[0, 0], [0, 0]]
     = Inr (Finite ((- ln 8 - ln 2) / (- ln 8)))
   \<and> length (cross_z 1 [0, 0] [[0, 0], [0, 0]]) = 8
   \<and> length (spec_z 1 [0, 0] [[0, 0], [0, 0]]) = 4"
proof -
  have d: "- ln (sum_list (map exp (cross_z 1 [0, 0] [[0, 0], [0, 0]])))
             + sum_list (map (\<lambda>x. x * ln 2) [0]) \<noteq> 0"
    by (simp add: cross_z_def ln8)
  from mh_ratio_cross_product [of "[0, 0]" "[[0, 0], [0, 0]]" "[0, 0]" "[[0, 0], [0, 0]]"
      1 "map (\<lambda>x. x * ln 2)" "[0]" "[- 1]", OF _ _ _ _ d]
  show ?thesis by (simp add: cross_z_def spec_z_def)
qed

text \<open>
  C9, as stated, fails: with a zero denominator \<open>lk + p\<close> the call returns a value and
  raises nothing. Here \<open>lk = 0\<close>, \<open>p = 0\<close> and the numerator is \<open>1\<close>.
\<close>

theorem mh_ratio_zero_denominator_counterexample:
  "mh_ratio (\<lambda>r. r) 1 [0] [1] [0] [0] [[0]] [[0]] = Inr PInf"
  by (simp add: mh_ratio_def logsumexp_def z_list_def z_middle_def z_inner_def np_div_def)

text \<open>
  C9 (amended): whenever the denominator \<open>lk + p\<close> is zero (and the quality lists are
  non-empty, so that \<^verbatim>\<open>logsumexp\<close> itself does not raise), \<^verbatim>\<open>_mh_ratio\<close> raises no
  error: the numpy division returns \<^verbatim>\<open>nan\<close> or an infinity to the caller.
\<close>

theorem mh_ratio_zero_denominator:
  assumes "QE \<noteq> []" "concat QPi \<noteq> []" "QE_new \<noteq> []" "concat QPi_new \<noteq> []"
    and "- ln (sum_list (map exp (cross_z beta QE QPi))) + sum_list (log_p r) = 0"
  shows "\<exists>v. mh_ratio log_p beta r r_new QE QE_new QPi QPi_new = Inr v \<and>
             (v = NaN \<or> v = PInf \<or> v = NInf)"
  using assms
  by (simp add: mh_ratio_def logsumexp_def z_list_eq cross_z_Nil np_div_def)

theorem mh_ratio_zero_denominator_witness:
  "\<exists>v. mh_ratio (\<lambda>r. r) 1 [0] [0] [0] [0] [[0]] [[0]] = Inr v \<and> (v = NaN \<or> v = PInf \<or> v = NInf)"
  using mh_ratio_zero_denominator [of "[0]" "[[0]]" "[0]" "[[0]]" 1 "\<lambda>r. r" "[0]" "[0]"]
  by (simp add: cross_z_def)

section \<open>Properties of the cooling schedule\<close>

text \<open>
  C6 is stated for any fixed ratio. For a negative ratio it fails: with ratio
  \<open>- 1 / 2\<close> the exponent is \<open>7\<close> at step 100 and \<open>8\<close> at step 150, so the
  acceptance probability rises from \<open>- 1 / 128\<close> to \<open>1 / 256\<close>.
\<close>

theorem cooling_negative_ratio_counterexample:
  "\<not> np_le (accept_probability True (Finite (- 1 / 2)) 150)
            (accept_probability True (Finite (- 1 / 2)) 100)"
  by (simp add: accept_probability_def cooling_def integral_def power_divide)

text \<open>
  C6 (amended): with cooling enabled and a ratio that is not negative (a finite value
  \<open>\<ge> 0\<close>, \<^verbatim>\<open>+inf\<close> or \<^verbatim>\<open>nan\<close>), the acceptance probability
  \<open>min(1, ratio) ** (5 + step/50)\<close> is non-increasing in the step, in particular from
  step 1 to step 500; and the exponent \<open>5 + step/50\<close> is strictly increasing in the step.
\<close>

theorem cooling_monotone:
  assumes "ratio \<noteq> NInf" "\<And>x. ratio = Finite x \<Longrightarrow> 0 \<le> x" "s1 \<le> s2"
  shows "np_le (accept_probability True ratio s2) (accept_probability True ratio s1)
         \<and> np_le (accept_probability True ratio 500) (accept_probability True ratio 1)
         \<and> (s1 < s2 \<longrightarrow> cooling s1 < cooling s2)"
proof -
  have mono: "np_le (accept_probability True ratio b) (accept_probability True ratio a)"
    if ab: "a \<le> b" for a b
  proof (cases ratio)
    case (Finite x)
    then have x0: "0 \<le> x" using assms(2) by simp
    have c: "cooling a \<le> cooling b" using ab by (simp add: cooling_def)
    show ?thesis
    proof (cases "x < 1")
      case True
      then show ?thesis using Finite x0 c
        by (simp add: accept_probability_def powr_mono')
    next
      case False
      then show ?thesis using Finite by (simp add: accept_probability_def)
    qed
  qed (use assms(1) in \<open>simp_all add: accept_probability_def\<close>)
  have "np_le (accept_probability True ratio 500) (accept_probability True ratio 1)"
    by (rule mono) simp
  moreover have "s1 < s2 \<longrightarrow> cooling s1 < cooling s2"
    by (simp add: cooling_def)
  ultimately show ?thesis using mono [OF assms(3)] by simp
qed

theorem cooling_monotone_witness:
  "np_le (accept_probability True (Finite (1 / 2)) 500) (accept_probability True (Finite (1 / 2)) 1)
   \<and> cooling 1 < cooling 500"
  using cooling_monotone [of "Finite (1 / 2)" 1 500] by simp

section \<open>Properties of the proposal\<close>


lemmas pw_loop_induct =
  pw_loop.raw_induct [where Pa = "\<lambda>x y. Q (fst (fst (fst (fst x)))) (snd (fst (fst (fst x))))
     (snd (fst (fst x))) (snd (fst x)) (snd x) y",
     unfolded fst_conv snd_conv, rotated 1, consumes 1] for Q

lemma pw_post_Suc: "pw_post P tape (Suc k) h a y \<Longrightarrow> pw_post P tape k h a y"
  unfolding pw_post_def by (cases y) (auto intro: Suc_lessD)

lemma pw_post_ret:
  assumes "snd (tape k) < length (h ! a)"
    and "bounded P \<longrightarrow> - 1 \<le> h ! a ! snd (tape k) + signed_delta P (tape k) \<and>
           h ! a ! snd (tape k) + signed_delta P (tape k) \<le> 1"
  shows "pw_post P tape k h a
     (Inr (h[a := (h ! a)[snd (tape k) := h ! a ! snd (tape k) + signed_delta P (tape k)]], Suc k))"
  using assms unfolding pw_post_def by simp

lemma pw_loop_post: "pw_loop P tape k h a = Some y \<Longrightarrow> pw_post P tape k h a y"
proof (induction rule: pw_loop_induct [where Q = pw_post])
  case (1 pw_loop P tape k h a y)
  note body = 1(2) [unfolded Let_def]
  show ?case
  proof (cases "dim P = 0")
    case True
    with body have "y = Inl ValueError" by simp
    with True show ?thesis by (simp add: pw_post_def)
  next
    case d: False
    show ?thesis
    proof (cases "length (h ! a) \<le> snd (tape k)")
      case True
      with body d have "y = Inl IndexError" by simp
      with True show ?thesis unfolding pw_post_def by auto
    next
      case l: False
      show ?thesis
      proof (cases "bounded P \<and> \<not> (- 1 \<le> h ! a ! snd (tape k) + signed_delta P (tape k) \<and>
                      h ! a ! snd (tape k) + signed_delta P (tape k) \<le> 1)")
        case True
        with body d l have "pw_loop P tape (Suc k) h a = Some y" by simp
        from pw_post_Suc [OF 1(1) [OF this]] show ?thesis .
      next
        case False
        with body d l have
          "y = Inr (h[a := (h ! a)[snd (tape k) := h ! a ! snd (tape k) + signed_delta P (tape k)]], Suc k)"
          by (simp split: if_splits)
        moreover have "snd (tape k) < length (h ! a)" using l by simp
        ultimately show ?thesis using False pw_post_ret [of tape k h a P] by blast
      qed
    qed
  qed
qed


lemma signed_delta_cases: "signed_delta P x = delta P \<or> signed_delta P x = - delta P"
  by (simp add: signed_delta_def)

lemma pw_loop_shape:
  assumes "pw_loop P tape k h a = Some (Inr (h', k'))"
  shows "\<exists>i d. i < length (h ! a) \<and> (d = delta P \<or> d = - delta P) \<and>
           h' = h[a := (h ! a)[i := h ! a ! i + d]] \<and> k < k' \<and>
           (bounded P \<longrightarrow> - 1 \<le> h ! a ! i + d \<and> h ! a ! i + d \<le> 1)"
proof -
  let ?i = "snd (tape (k' - 1))" and ?d = "signed_delta P (tape (k' - 1))"
  from pw_loop_post [OF assms]
  have "k < k' \<and> ?i < length (h ! a) \<and> h' = h[a := (h ! a)[?i := h ! a ! ?i + ?d]] \<and>
        (bounded P \<longrightarrow> - 1 \<le> h ! a ! ?i + ?d \<and> h ! a ! ?i + ?d \<le> 1)"
    by (simp add: pw_post_def)
  with signed_delta_cases [of P "tape (k' - 1)"]
  have "?i < length (h ! a) \<and> (?d = delta P \<or> ?d = - delta P) \<and>
           h' = h[a := (h ! a)[?i := h ! a ! ?i + ?d]] \<and> k < k' \<and>
           (bounded P \<longrightarrow> - 1 \<le> h ! a ! ?i + ?d \<and> h ! a ! ?i + ?d \<le> 1)"
    by blast
  then show ?thesis by (intro exI)
qed

lemma call_store_shape:
  assumes "PolicyWalkProposal_call_store P tape k h loc = Some (Inr (a, h', k'))"
  shows "a = length h \<and>
         (\<exists>i d. i < length (h ! loc) \<and> (d = delta P \<or> d = - delta P) \<and>
            h' = h @ [(h ! loc)[i := h ! loc ! i + d]] \<and> k < k' \<and>
            (bounded P \<longrightarrow> - 1 \<le> h ! loc ! i + d \<and> h ! loc ! i + d \<le> 1))"
proof -
  from assms have a: "a = length h"
    and l: "pw_loop P tape k (h @ [h ! loc]) (length h) = Some (Inr (h', k'))"
    by (auto simp: PolicyWalkProposal_call_store_def np_array_def split: option.splits sum.splits)
  from pw_loop_shape [OF l] obtain i d where
    "i < length ((h @ [h ! loc]) ! length h)" "d = delta P \<or> d = - delta P"
    "h' = (h @ [h ! loc])[length h := ((h @ [h ! loc]) ! length h)[i := (h @ [h ! loc]) ! length h ! i + d]]"
    "k < k'"
    "bounded P \<longrightarrow> - 1 \<le> (h @ [h ! loc]) ! length h ! i + d \<and> (h @ [h ! loc]) ! length h ! i + d \<le> 1"
    by blast
  then have "i < length (h ! loc) \<and> (d = delta P \<or> d = - delta P) \<and>
            h' = h @ [(h ! loc)[i := h ! loc ! i + d]] \<and> k < k' \<and>
            (bounded P \<longrightarrow> - 1 \<le> h ! loc ! i + d \<and> h ! loc ! i + d \<le> 1)"
    by simp
  then show ?thesis using a by blast
qed

lemma call_shape:
  assumes "PolicyWalkProposal_call P tape k loc = Some (Inr (loc', k'))"
  shows "\<exists>i d. i < length loc \<and> (d = delta P \<or> d = - delta P) \<and>
            loc' = loc[i := loc ! i + d] \<and> k < k' \<and>
            (bounded P \<longrightarrow> - 1 \<le> loc ! i + d \<and> loc ! i + d \<le> 1)"
proof -
  from assms obtain a h' where
    s: "PolicyWalkProposal_call_store P tape k [loc] 0 = Some (Inr (a, h', k'))"
    and r: "loc' = h' ! a"
    by (auto simp: PolicyWalkProposal_call_def split: option.splits sum.splits)
  from call_store_shape [OF s] obtain i d where
    a: "a = length [loc]" and "i < length ([loc] ! 0)" "d = delta P \<or> d = - delta P"
    and h': "h' = [loc] @ [([loc] ! 0)[i := [loc] ! 0 ! i + d]]" and "k < k'"
    "bounded P \<longrightarrow> - 1 \<le> [loc] ! 0 ! i + d \<and> [loc] ! 0 ! i + d \<le> 1"
    by blast
  moreover have "loc' = loc[i := loc ! i + d]" using r a h' by simp
  ultimately have "i < length loc \<and> (d = delta P \<or> d = - delta P) \<and>
            loc' = loc[i := loc ! i + d] \<and> k < k' \<and>
            (bounded P \<longrightarrow> - 1 \<le> loc ! i + d \<and> loc ! i + d \<le> 1)"
    by simp
  then show ?thesis by blast
qed

lemma in_unit_box_update:
  "in_unit_box v \<Longrightarrow> - 1 \<le> x \<Longrightarrow> x \<le> 1 \<Longrightarrow> in_unit_box (v[i := x])"
  unfolding in_unit_box_def list_all_iff
  by (auto dest!: set_update_subset_insert [THEN subsetD])

lemma call_in_unit_box:
  assumes "bounded P" "in_unit_box loc"
    and "PolicyWalkProposal_call P tape k loc = Some (Inr (loc', k'))"
  shows "in_unit_box loc'"
proof -
  from call_shape [OF assms(3)] assms(1) obtain i d where
    "loc' = loc[i := loc ! i + d]" "- 1 \<le> loc ! i + d" "loc ! i + d \<le> 1"
    by blast
  with assms(2) show ?thesis by (simp add: in_unit_box_update)
qed


text \<open>
  C2: for a bounded proposal and an input vector with every component in \<open>[-1, 1]\<close>,
  the vector returned by a call, and by any finite sequence of chained calls (\<open>n = 1\<close>
  is a single call), has every component in \<open>[-1, 1]\<close>.
\<close>

theorem chain_in_unit_box:
  assumes "bounded P" "in_unit_box loc"
    and "call_chain P tape n k loc = Some (Inr (loc', k'))"
  shows "in_unit_box loc'"
  using assms(2,3)
proof (induction n arbitrary: k loc)
  case 0
  then show ?case by simp
next
  case (Suc n)
  from Suc.prems(2) obtain l1 k1 where
    c: "PolicyWalkProposal_call P tape k loc = Some (Inr (l1, k1))"
    and r: "call_chain P tape n k1 l1 = Some (Inr (loc', k'))"
    by (auto split: option.splits sum.splits)
  from call_in_unit_box [OF assms(1) Suc.prems(1) c] have "in_unit_box l1" .
  from Suc.IH [OF this r] show ?case .
qed

text \<open>
  C8 (amended): every call that returns a vector, bounded or not, returns a fresh array
  (an address the store did not have), leaves every array of the old store, its argument
  included, as it was, and the returned array differs from the argument in exactly one
  dimension \<open>i\<close>, by \<open>+delta\<close> or \<open>-delta\<close>, every other component being equal.
\<close>

theorem call_store_frame:
  assumes "PolicyWalkProposal_call_store P tape k h loc = Some (Inr (a, h', k'))"
    and "loc < length h"
  shows "a = length h \<and> length h' = Suc (length h) \<and> (\<forall>b<length h. h' ! b = h ! b) \<and>
     (\<exists>i d. i < length (h ! loc) \<and> (d = delta P \<or> d = - delta P) \<and>
        length (h' ! a) = length (h ! loc) \<and>
        h' ! a ! i = h ! loc ! i + d \<and>
        (delta P \<noteq> 0 \<longrightarrow> h' ! a ! i \<noteq> h ! loc ! i) \<and>
        (\<forall>j<length (h ! loc). j \<noteq> i \<longrightarrow> h' ! a ! j = h ! loc ! j))"
proof -
  from call_store_shape [OF assms(1)] obtain i d where
    a: "a = length h" and i: "i < length (h ! loc)" and d: "d = delta P \<or> d = - delta P"
    and h': "h' = h @ [(h ! loc)[i := h ! loc ! i + d]]"
    by blast
  have 1: "length h' = Suc (length h)" using h' by simp
  have 2: "\<forall>b<length h. h' ! b = h ! b" using h' by (simp add: nth_append)
  have 3: "h' ! a = (h ! loc)[i := h ! loc ! i + d]" using h' a by simp
  have 4: "h' ! a ! i = h ! loc ! i + d" using 3 i by simp
  have 5: "delta P \<noteq> 0 \<longrightarrow> h' ! a ! i \<noteq> h ! loc ! i" using 4 d by auto
  have 6: "\<forall>j<length (h ! loc). j \<noteq> i \<longrightarrow> h' ! a ! j = h ! loc ! j" using 3 by simp
  have 7: "length (h' ! a) = length (h ! loc)" using 3 by simp
  have "i < length (h ! loc) \<and> (d = delta P \<or> d = - delta P) \<and>
        length (h' ! a) = length (h ! loc) \<and>
        h' ! a ! i = h ! loc ! i + d \<and>
        (delta P \<noteq> 0 \<longrightarrow> h' ! a ! i \<noteq> h ! loc ! i) \<and>
        (\<forall>j<length (h ! loc). j \<noteq> i \<longrightarrow> h' ! a ! j = h ! loc ! j)"
    using i d 4 5 6 7 by simp
  then have "\<exists>i d. i < length (h ! loc) \<and> (d = delta P \<or> d = - delta P) \<and>
        length (h' ! a) = length (h ! loc) \<and>
        h' ! a ! i = h ! loc ! i + d \<and>
        (delta P \<noteq> 0 \<longrightarrow> h' ! a ! i \<noteq> h ! loc ! i) \<and>
        (\<forall>j<length (h ! loc). j \<noteq> i \<longrightarrow> h' ! a ! j = h ! loc ! j)"
    by (intro exI)
  with a 1 2 show ?thesis by simp
qed

lemma stuck_draw:
  assumes "stuck P v" "i < length v"
  shows "\<not> (- 1 \<le> v ! i + signed_delta P x \<and> v ! i + signed_delta P x \<le> 1)"
proof -
  from assms have s: "\<not> (- 1 \<le> v ! i + delta P \<and> v ! i + delta P \<le> 1)"
    "\<not> (- 1 \<le> v ! i - delta P \<and> v ! i - delta P \<le> 1)"
    unfolding stuck_def by simp_all
  show ?thesis
  proof (cases "fst x")
    case True
    then have "signed_delta P x = delta P" by (simp add: signed_delta_def)
    with s(1) show ?thesis by simp
  next
    case False
    then have "signed_delta P x = - delta P" by (simp add: signed_delta_def)
    with s(2) show ?thesis by simp
  qed
qed

lemma pw_loop_never:
  assumes "bounded P" "dim P \<noteq> 0" "\<forall>j. snd (tape j) < length (h ! a)" "stuck P (h ! a)"
  shows "pw_loop P tape k h a = None"
proof (cases "pw_loop P tape k h a")
  case None
  then show ?thesis .
next
  case (Some y)
  note post = pw_loop_post [OF Some]
  show ?thesis
  proof (cases y)
    case (Inl e)
    with post have "dim P = 0 \<or> (\<exists>j. length (h ! a) \<le> snd (tape j))"
      by (simp add: pw_post_def)
    then obtain j where "length (h ! a) \<le> snd (tape j)" using assms(2) by blast
    moreover have "snd (tape j) < length (h ! a)" using assms(3) ..
    ultimately show ?thesis by simp
  next
    case (Inr r)
    obtain h' k' where r: "r = (h', k')" by (cases r)
    let ?m = "k' - 1"
    from post Inr r assms(1)
    have "snd (tape ?m) < length (h ! a)"
      and "- 1 \<le> h ! a ! snd (tape ?m) + signed_delta P (tape ?m) \<and>
           h ! a ! snd (tape ?m) + signed_delta P (tape ?m) \<le> 1"
      by (simp_all add: pw_post_def)
    with stuck_draw [OF assms(4), of "snd (tape ?m)" "tape ?m"] show ?thesis by simp
  qed
qed

text \<open>
  C7, as stated for every step size \<open>delta > 0\<close>, fails: with \<open>delta = 3 / 2\<close>
  and the input \<open>[0]\<close> neither \<open>0 + 3/2\<close> nor \<open>0 - 3/2\<close> lies in \<open>[-1, 1]\<close>,
  and the bounded call never returns, here on a tape that alternates both signs forever.
\<close>

theorem call_never_returns:
  "PolicyWalkProposal_call \<lparr>dim = 1, delta = 3 / 2, bounded = True\<rparr> (\<lambda>k. (even k, 0)) 0 [0] = None"
proof -
  have "pw_loop \<lparr>dim = 1, delta = 3 / 2, bounded = True\<rparr> (\<lambda>k. (even k, 0)) 0 [[0], [0]] 1 = None"
    by (rule pw_loop_never) (simp_all add: stuck_def)
  then show ?thesis
    by (simp add: PolicyWalkProposal_call_def PolicyWalkProposal_call_store_def np_array_def)
qed

lemma pw_loop_terminates:
  assumes "bounded P" "dim P \<noteq> 0" "\<forall>m. snd (tape m) < length (h ! a)"
    and "k \<le> j" "valid_draw P (h ! a) (tape j)"
  shows "\<exists>h' k'. pw_loop P tape k h a = Some (Inr (h', k'))"
  using assms(4)
proof (induction "j - k" arbitrary: k)
  case 0
  then have kj: "k = j" by simp
  have l: "\<not> length (h ! a) \<le> snd (tape k)" using assms(3) by (simp add: not_le)
  have v: "- 1 \<le> h ! a ! snd (tape k) + signed_delta P (tape k) \<and>
           h ! a ! snd (tape k) + signed_delta P (tape k) \<le> 1"
    using assms(5) kj by (simp add: valid_draw_def)
  show ?case
    unfolding pw_loop.simps [of P tape k h a] Let_def if_not_P [OF assms(2)] if_not_P [OF l]
      if_P [OF assms(1)] if_P [OF v] by blast
next
  case (Suc n)
  then have IH: "\<exists>h' k'. pw_loop P tape (Suc k) h a = Some (Inr (h', k'))"
    by simp
  have l: "\<not> length (h ! a) \<le> snd (tape k)" using assms(3) by (simp add: not_le)
  show ?case
  proof (cases "- 1 \<le> h ! a ! snd (tape k) + signed_delta P (tape k) \<and>
           h ! a ! snd (tape k) + signed_delta P (tape k) \<le> 1")
    case True
    show ?thesis
      unfolding pw_loop.simps [of P tape k h a] Let_def if_not_P [OF assms(2)] if_not_P [OF l]
        if_P [OF assms(1)] if_P [OF True] by blast
  next
    case False
    show ?thesis
      unfolding pw_loop.simps [of P tape k h a] Let_def if_not_P [OF assms(2)] if_not_P [OF l]
        if_P [OF assms(1)] if_not_P [OF False] by (rule IH)
  qed
qed

text \<open>
  C7 (amended): for a bounded proposal with \<open>0 < delta \<le> 1\<close> over a non-empty vector
  of its own dimension with all components in \<open>[-1, 1]\<close>, the resampling loop
  terminates and returns a sample within \<open>[-1, 1]\<close> on every tape of draws that is
  fair (every sign and dimension is drawn again at some later position, as happens with
  probability one).
\<close>

theorem call_terminates:
  assumes "bounded P" "0 < delta P" "delta P \<le> 1" "dim P = length loc" "loc \<noteq> []"
    and "in_unit_box loc" "\<forall>m. snd (tape m) < dim P" "fair tape (dim P) k"
  shows "\<exists>loc' k'. PolicyWalkProposal_call P tape k loc = Some (Inr (loc', k')) \<and> in_unit_box loc'"
proof -
  have l0: "0 < length loc" using assms(5) by simp
  then have "loc ! 0 \<in> set loc" by simp
  with assms(6) have b: "- 1 \<le> loc ! 0" "loc ! 0 \<le> 1"
    by (auto simp: in_unit_box_def list_all_iff)
  define s where "s = (loc ! 0 \<le> 0)"
  from assms(8) l0 assms(4) have "\<exists>j. k \<le> j \<and> tape j = (s, 0)"
    unfolding fair_def by simp
  then obtain j where j: "k \<le> j" "tape j = (s, 0)" by blast
  have v: "valid_draw P ([loc, loc] ! 1) (tape j)"
    using b assms(2,3) j(2) by (auto simp: valid_draw_def s_def signed_delta_def)
  have d: "dim P \<noteq> 0" using assms(4) l0 by simp
  have t: "\<forall>m. snd (tape m) < length ([loc, loc] ! 1)" using assms(4,7) by simp
  from pw_loop_terminates [OF assms(1) d t j(1) v]
  obtain h' k' where "pw_loop P tape k [loc, loc] 1 = Some (Inr (h', k'))" by blast
  then have c: "PolicyWalkProposal_call P tape k loc = Some (Inr (h' ! 1, k'))"
    by (simp add: PolicyWalkProposal_call_def PolicyWalkProposal_call_store_def np_array_def)
  from call_in_unit_box [OF assms(1) assms(6) c] c show ?thesis by blast
qed

text \<open>Concrete runs: a call whose first draw is accepted.\<close>

lemma pw_loop_first:
  assumes "dim P \<noteq> 0" "snd (tape k) < length (h ! a)"
    and "bounded P \<longrightarrow> valid_draw P (h ! a) (tape k)"
  shows "pw_loop P tape k h a =
     Some (Inr (h[a := (h ! a)[snd (tape k) := h ! a ! snd (tape k) + signed_delta P (tape k)]], Suc k))"
  using assms by (subst pw_loop.simps) (auto simp add: Let_def valid_draw_def)

lemma call_first:
  assumes "dim P \<noteq> 0" "snd (tape k) < length loc"
    and "bounded P \<longrightarrow> valid_draw P loc (tape k)"
  shows "PolicyWalkProposal_call P tape k loc =
     Some (Inr (loc[snd (tape k) := loc ! snd (tape k) + signed_delta P (tape k)], Suc k))"
proof -
  have "pw_loop P tape k [loc, loc] 1 =
     Some (Inr ([loc, loc][1 := ([loc, loc] ! 1)[snd (tape k) :=
        [loc, loc] ! 1 ! snd (tape k) + signed_delta P (tape k)]], Suc k))"
    by (rule pw_loop_first) (use assms in simp_all)
  then show ?thesis
    by (simp add: PolicyWalkProposal_call_def PolicyWalkProposal_call_store_def np_array_def)
qed

theorem chain_in_unit_box_witness:
  "in_unit_box [0] \<and>
   call_chain \<lparr>dim = 1, delta = 1 / 2, bounded = True\<rparr> (\<lambda>k. (True, 0)) (Suc (Suc 0)) 0 [0]
     = Some (Inr ([1], 2)) \<and>
   in_unit_box [1]"
proof -
  let ?P = "\<lparr>dim = 1, delta = 1 / 2, bounded = True\<rparr>"
  have b: "in_unit_box [0]" by (simp add: in_unit_box_def)
  have c1: "PolicyWalkProposal_call ?P (\<lambda>k. (True, 0)) 0 [0] = Some (Inr ([1 / 2], 1))"
    using call_first [of ?P "\<lambda>k. (True, 0)" 0 "[0]"]
    by (simp add: valid_draw_def signed_delta_def)
  have c2: "PolicyWalkProposal_call ?P (\<lambda>k. (True, 0)) 1 [1 / 2] = Some (Inr ([1], 2))"
    using call_first [of ?P "\<lambda>k. (True, 0)" 1 "[1 / 2]"]
    by (simp add: valid_draw_def signed_delta_def)
  have c: "call_chain ?P (\<lambda>k. (True, 0)) (Suc (Suc 0)) 0 [0] = Some (Inr ([1], 2))"
    by (simp only: call_chain.simps c1 c2 option.case sum.case prod.case)
  from chain_in_unit_box [of ?P "[0]" "\<lambda>k. (True, 0)" "Suc (Suc 0)" 0 "[1]" 2, OF _ b c] b c
  show ?thesis by simp
qed

lemma pw_loop_reject:
  assumes "dim P \<noteq> 0" "snd (tape k) < length (h ! a)" "bounded P"
    and "\<not> valid_draw P (h ! a) (tape k)"
  shows "pw_loop P tape k h a = pw_loop P tape (Suc k) h a"
  using assms by (subst pw_loop.simps) (auto simp add: Let_def valid_draw_def)

theorem call_store_frame_witness:
  "PolicyWalkProposal_call_store \<lparr>dim = 1, delta = 1 / 2, bounded = True\<rparr> (\<lambda>k. (even k, 0)) 0 [[1]] 0
     = Some (Inr (1, [[1], [1 / 2]], 2)) \<and>
   [[1], [1 / 2]] ! 0 = [1::real] \<and> length [[1], [1 / 2 :: real]] = Suc (length [[1::real]])"
proof -
  let ?P = "\<lparr>dim = 1, delta = 1 / 2, bounded = True\<rparr>"
  let ?t = "\<lambda>k::nat. (even k, 0::nat)"
  have r: "pw_loop ?P ?t 0 [[1], [1]] 1 = pw_loop ?P ?t (Suc 0) [[1], [1]] 1"
    by (rule pw_loop_reject) (simp_all add: valid_draw_def signed_delta_def)
  have "pw_loop ?P ?t (Suc 0) [[1], [1]] 1 = Some (Inr ([[1], [1 / 2]], 2))"
    using pw_loop_first [of ?P ?t "Suc 0" "[[1], [1]]" 1]
    by (simp add: signed_delta_def valid_draw_def)
  with r have "pw_loop ?P ?t 0 [[1], [1]] 1 = Some (Inr ([[1], [1 / 2]], 2))" by simp
  then have c: "PolicyWalkProposal_call_store ?P ?t 0 [[1]] 0
     = Some (Inr (1, [[1], [1 / 2]], 2))"
    by (simp add: PolicyWalkProposal_call_store_def np_array_def)
  from call_store_frame [OF c] c show ?thesis by simp
qed

text \<open>
  C8, as stated, has every call return a vector. A bounded call returns nothing when no
  step keeps a coordinate within the bounds: with \<open>delta = 3\<close> and the array
  \<open>[1/2]\<close> both \<open>7/2\<close> and \<open>-5/2\<close> are rejected at every draw.
\<close>

theorem call_store_returns_nothing:
  "PolicyWalkProposal_call_store \<lparr>dim = 1, delta = 3, bounded = True\<rparr> (\<lambda>k. (odd k, 0)) 0
     [[1 / 2]] 0 = None"
proof -
  have "pw_loop \<lparr>dim = 1, delta = 3, bounded = True\<rparr> (\<lambda>k. (odd k, 0)) 0 [[1 / 2], [1 / 2]] 1 = None"
    by (rule pw_loop_never) (simp_all add: stuck_def)
  then show ?thesis
    by (simp add: PolicyWalkProposal_call_store_def np_array_def)
qed

theorem call_terminates_witness:
  "in_unit_box [1] \<and> fair (\<lambda>k. (even k, 0)) 1 0 \<and>
   (\<exists>loc' k'. PolicyWalkProposal_call \<lparr>dim = 1, delta = 1 / 2, bounded = True\<rparr>
        (\<lambda>k. (even k, 0)) 0 [1] = Some (Inr (loc', k')) \<and> in_unit_box loc')"
proof -
  let ?P = "\<lparr>dim = 1, delta = 1 / 2, bounded = True\<rparr>"
  have b: "in_unit_box [1]" by (simp add: in_unit_box_def)
  have f: "fair (\<lambda>k. (even k, 0)) 1 0"
    unfolding fair_def
  proof (intro allI impI)
    fix s :: bool and i :: nat
    assume "i < 1"
    then have i: "i = 0" by simp
    show "\<exists>j\<ge>0::nat. (even j, 0::nat) = (s, i)"
    proof (cases s)
      case True
      then show ?thesis using i by (intro exI [of _ "0::nat"]) simp
    next
      case False
      then show ?thesis using i by (intro exI [of _ "1::nat"]) simp
    qed
  qed
  from call_terminates [of ?P "[1]" "\<lambda>k. (even k, 0)" 0] b f
  show ?thesis by simp
qed

section \<open>Properties of the initial reward\<close>

lemma rounding_id: "rounding (\<lambda>x. x)"
  by (simp add: rounding_def mono_def)

lemma rounding_mono: "rounding fl \<Longrightarrow> x \<le> y \<Longrightarrow> fl x \<le> fl y"
  by (simp add: rounding_def mono_def)

lemma rounding_int: "rounding fl \<Longrightarrow> \<bar>k\<bar> \<le> 2 ^ 53 \<Longrightarrow> fl (real_of_int k) = real_of_int k"
  by (simp add: rounding_def)

lemma rounding_nonneg:
  assumes "rounding fl" "0 \<le> x"
  shows "0 \<le> fl x"
proof -
  have "fl (real_of_int 0) = real_of_int 0" using assms(1) by (intro rounding_int) simp_all
  with rounding_mono [OF assms(1,2)] show ?thesis by simp
qed

lemma rounding_le_int:
  assumes "rounding fl" "x \<le> real_of_int k" "\<bar>k\<bar> \<le> 2 ^ 53"
  shows "fl x \<le> real_of_int k"
  using rounding_mono [OF assms(1,2)] rounding_int [OF assms(1,3)] by simp

lemma rounding_ge_int:
  assumes "rounding fl" "real_of_int k \<le> x" "\<bar>k\<bar> \<le> 2 ^ 53"
  shows "real_of_int k \<le> fl x"
  using rounding_mono [OF assms(1,2)] rounding_int [OF assms(1,3)] by simp

lemma draw_rewards_Inr:
  "draw_rewards loc n rr js = Inr rs \<Longrightarrow> length rs = length js \<and> set rs \<subseteq> set loc"
proof (induction js arbitrary: rs)
  case Nil
  then show ?case by simp
next
  case (Cons j js)
  from Cons.prems obtain rs' where r: "draw_rewards loc n rr js = Inr rs'"
    and rs: "rs = loc ! rr j # rs'" and l: "rr j < length loc"
    by (auto split: if_splits sum.splits)
  from Cons.IH [OF r] rs l show ?case by simp
qed

lemma draw_rewards_const:
  "0 < n \<Longrightarrow> i < length loc \<Longrightarrow>
     draw_rewards loc n (\<lambda>_. i) js = Inr (replicate (length js) (loc ! i))"
  by (induction js) simp_all

text \<open>
  The number of grid points, whatever the rounding: at least one, and at most one more
  than the quotient \<open>Rmax / delta\<close> rounded up.
\<close>

lemma grid_size_bounds:
  assumes "rounding fl" "0 < rmax" "0 < step" "rmax / step + 2 \<le> 2 ^ 53"
  shows "1 \<le> grid_size fl rmax step \<and> grid_size fl rmax step \<le> \<lceil>rmax / step\<rceil> + 1"
proof -
  let ?q = "rmax / step"
  have q: "0 < ?q" using assms(2,3) by simp
  have c0: "0 \<le> \<lceil>?q\<rceil>" using q by simp
  have "real_of_int \<lceil>?q\<rceil> < ?q + 1" by linarith
  with assms(4) have "real_of_int (\<lceil>?q\<rceil> + 1) \<le> 2 ^ 53" by simp
  then have c1: "\<lceil>?q\<rceil> + 1 \<le> 2 ^ 53" by (simp only: of_int_le_numeral_power_cancel_iff)
  have a: "fl ?q \<le> real_of_int \<lceil>?q\<rceil>"
    by (rule rounding_le_int [OF assms(1)]) (use c0 c1 in simp_all)
  have b: "0 \<le> fl ?q" using q by (intro rounding_nonneg [OF assms(1)]) simp
  have "fl ?q + 1 \<le> real_of_int (\<lceil>?q\<rceil> + 1)" using a by simp
  then have u: "fl (fl ?q + 1) \<le> real_of_int (\<lceil>?q\<rceil> + 1)"
    by (rule rounding_le_int [OF assms(1)]) (use c0 c1 in simp_all)
  have "real_of_int 1 \<le> fl ?q + 1" using b by simp
  then have l: "real_of_int 1 \<le> fl (fl ?q + 1)"
    by (rule rounding_ge_int [OF assms(1)]) simp
  then have g: "grid_size fl rmax step = \<lfloor>fl (fl ?q + 1)\<rfloor>"
    by (simp add: grid_size_def py_int_def)
  from l have "1 \<le> \<lfloor>fl (fl ?q + 1)\<rfloor>" by (simp add: le_floor_iff)
  moreover from u have "\<lfloor>fl (fl ?q + 1)\<rfloor> \<le> \<lceil>?q\<rceil> + 1" by (simp add: floor_le_iff)
  ultimately show ?thesis using g by simp
qed

text \<open>
  Every grid point is at least \<open>-Rmax\<close> and below \<open>delta\<close>: the grid starts at
  \<open>-Rmax\<close> and has about \<open>Rmax / delta + 1\<close> points of distance \<open>delta\<close>, so it
  ends near \<open>0\<close>, not near \<open>Rmax\<close>.
\<close>

lemma reward_grid_bounds:
  assumes "rounding fl" "0 < rmax" "0 < step" "rmax / step + 2 \<le> 2 ^ 53"
    and "x \<in> set (reward_grid fl rmax step)"
  shows "- rmax \<le> x \<and> x < step"
proof -
  let ?n = "grid_size fl rmax step"
  from assms(5) obtain i where i: "i < nat ?n" and x: "x = - rmax + real i * step"
    by (auto simp: reward_grid_def)
  from grid_size_bounds [OF assms(1-4)] have n: "?n \<le> \<lceil>rmax / step\<rceil> + 1" by simp
  from i n have "int i < \<lceil>rmax / step\<rceil> + 1" by linarith
  then have "real i \<le> real_of_int \<lceil>rmax / step\<rceil>" by linarith
  moreover have "real_of_int \<lceil>rmax / step\<rceil> < rmax / step + 1" by linarith
  ultimately have "real i < rmax / step + 1" by linarith
  then have "real i * step < (rmax / step + 1) * step"
    using assms(3) by (simp only: mult_less_cancel_right_pos)
  also have "\<dots> = rmax + step" using assms(3) by (simp add: field_simps)
  finally have "real i * step < rmax + step" .
  moreover have "0 \<le> real i * step" using assms(3) by simp
  ultimately show ?thesis using x by simp
qed

text \<open>With exact arithmetic no grid point is above \<open>0\<close>.\<close>

lemma reward_grid_exact_bounds:
  assumes "0 < rmax" "0 < step" "x \<in> set (reward_grid (\<lambda>x. x) rmax step)"
  shows "- rmax \<le> x \<and> x \<le> 0"
proof -
  let ?n = "py_int (rmax / step + 1)"
  from assms(3) obtain i where i: "i < nat ?n" and x: "x = - rmax + real i * step"
    by (auto simp: reward_grid_def grid_size_def)
  have "0 \<le> rmax / step + 1" using assms(1,2) by simp
  then have "real_of_int ?n \<le> rmax / step + 1" by (simp add: py_int_def)
  moreover have "real i + 1 \<le> real_of_int ?n" using i by linarith
  ultimately have "real i \<le> rmax / step" by linarith
  then have "real i * step \<le> rmax" using assms(2) by (simp add: pos_le_divide_eq)
  moreover have "0 \<le> real i * step" using assms(2) by simp
  ultimately show ?thesis using x by simp
qed

lemma initialize_reward_grid:
  assumes "initialize_reward fl S rr = Inr r" "\<not> s_tempered S"
  shows "length r = rdim S \<and> set r \<subseteq> set (reward_grid fl (s_rmax S) (s_delta S))"
proof -
  from assms have "draw_rewards (reward_grid fl (s_rmax S) (s_delta S))
      (grid_size fl (s_rmax S) (s_delta S)) rr [0..<rdim S] = Inr r"
    by (auto simp: initialize_reward_def split: if_splits sum.splits)
  from draw_rewards_Inr [OF this] show ?thesis by simp
qed



lemma reward_grid_example: "reward_grid (\<lambda>x. x) 1 (1 / 2) = [- 1, - 1 / 2, 0]"
  by (simp add: reward_grid_def grid_size_def py_int_def upt_rec)

lemma grid_size_example: "grid_size (\<lambda>x. x) 1 (1 / 2) = 3"
  by (simp add: grid_size_def py_int_def)

text \<open>
  \<^verbatim>\<open>initialize_reward\<close> of \<^verbatim>\<open>birl/iterative_birl.py\<close>, which samples
  \<^verbatim>\<open>uniform(-Rmax, Rmax)\<close>: its components lie in \<open>[-Rmax, Rmax)\<close> and every point of
  that interval is a possible value.
\<close>

lemma initialize_reward_birl_range:
  assumes "0 < s_rmax S" "\<not> s_tempered S" "\<forall>j. 0 \<le> us j \<and> us j < 1"
  shows "\<exists>r. initialize_reward_birl S us = Inr r \<and> length r = rdim S \<and>
             (\<forall>x\<in>set r. - s_rmax S \<le> x \<and> x < s_rmax S)"
proof -
  have "- s_rmax S \<le> np_uniform (- s_rmax S) (s_rmax S) (us j) \<and>
        np_uniform (- s_rmax S) (s_rmax S) (us j) < s_rmax S" for j
  proof -
    from assms(3) have u: "0 \<le> us j" "us j < 1" by simp_all
    have "0 \<le> 2 * s_rmax S * us j" using u(1) assms(1) by simp
    moreover have "2 * s_rmax S * us j < 2 * s_rmax S * 1"
      using u(2) assms(1) by (intro mult_strict_left_mono) simp_all
    ultimately show ?thesis by (simp add: np_uniform_def)
  qed
  then show ?thesis using assms(2)
    by (auto simp: initialize_reward_birl_def Let_def)
qed

lemma initialize_reward_birl_onto:
  assumes "0 < s_rmax S" "\<not> s_tempered S" "- s_rmax S \<le> v" "v < s_rmax S"
  shows "\<exists>us. (\<forall>j. 0 \<le> us j \<and> us j < 1) \<and>
              initialize_reward_birl S us = Inr (replicate (rdim S) v)"
proof -
  let ?u = "(v + s_rmax S) / (2 * s_rmax S)"
  have "0 \<le> ?u" "?u < 1" using assms by simp_all
  moreover have "np_uniform (- s_rmax S) (s_rmax S) ?u = v"
    using assms(1) by (simp add: np_uniform_def)
  ultimately have "(\<forall>j::nat. 0 \<le> ?u \<and> ?u < 1) \<and>
      initialize_reward_birl S (\<lambda>_. ?u) = Inr (replicate (rdim S) v)"
    using assms(2) by (simp add: initialize_reward_birl_def Let_def map_replicate_const)
  then show ?thesis by (intro exI [of _ "\<lambda>_. ?u"])
qed

text \<open>Every grid point is a possible value of every component.\<close>

lemma initialize_reward_onto:
  assumes "s_delta S \<noteq> 0" "\<not> s_tempered S" "x \<in> set (reward_grid fl (s_rmax S) (s_delta S))"
  shows "\<exists>rr. initialize_reward fl S rr = Inr (replicate (rdim S) x)"
proof -
  let ?loc = "reward_grid fl (s_rmax S) (s_delta S)"
  let ?n = "grid_size fl (s_rmax S) (s_delta S)"
  from assms(3) obtain i where i: "i < length ?loc" and x: "?loc ! i = x"
    by (auto simp: in_set_conv_nth)
  have "length ?loc = nat ?n" by (simp add: reward_grid_def)
  with i have n: "0 < ?n" by simp
  from draw_rewards_const [OF n i, of "[0..<rdim S]"] x assms(1,2)
  have "initialize_reward fl S (\<lambda>_. i) = Inr (replicate (rdim S) x)"
    by (simp add: initialize_reward_def)
  then show ?thesis by (intro exI [of _ "\<lambda>_. i"])
qed

lemma example_init:
  "initialize_reward (\<lambda>x. x) example_sampler (init_draws example_rng) = Inr [- 1, - 1 / 2]"
  by (simp add: initialize_reward_def example_sampler_def example_rng_def reward_grid_example
      grid_size_example upt_rec)

text \<open>
  C5: \<^verbatim>\<open>initialize_reward\<close> of \<^verbatim>\<open>inference_mcmc.py\<close> does not sample \<open>[-Rmax, Rmax]\<close>.
  For \<open>Rmax > 0\<close> and a step \<open>delta > 0\<close> (with \<open>Rmax / delta\<close> below \<open>2^53 - 2\<close>),
  without tempering, every result has \<open>rdim\<close> components, each a point of the grid
  \<open>-Rmax + i * delta\<close>, \<open>0 \<le> i < int(Rmax / delta + 1)\<close>, and each at least
  \<open>-Rmax\<close> but below \<open>delta\<close>: no value of \<open>[delta, Rmax]\<close> is ever drawn, while
  \<^verbatim>\<open>initialize_reward\<close> of \<^verbatim>\<open>birl/iterative_birl.py\<close> draws from all of \<open>[-Rmax, Rmax)\<close>.
\<close>

theorem initialize_reward_below_step:
  assumes "rounding fl" "0 < s_rmax S" "0 < s_delta S" "s_rmax S / s_delta S + 2 \<le> 2 ^ 53"
    and "\<not> s_tempered S" "initialize_reward fl S rr = Inr r"
  shows "length r = rdim S \<and>
         (\<forall>x\<in>set r. x \<in> set (reward_grid fl (s_rmax S) (s_delta S)) \<and>
                     - s_rmax S \<le> x \<and> x < s_delta S)"
proof (intro conjI ballI)
  from initialize_reward_grid [OF assms(6,5)] show "length r = rdim S" by simp
next
  fix x assume x: "x \<in> set r"
  with initialize_reward_grid [OF assms(6,5)]
  show g: "x \<in> set (reward_grid fl (s_rmax S) (s_delta S))" by blast
  from reward_grid_bounds [OF assms(1-4) g]
  show "- s_rmax S \<le> x" "x < s_delta S" by simp_all
qed

theorem initialize_reward_below_step_witness:
  "rounding (\<lambda>x. x) \<and> 0 < s_rmax example_sampler \<and> 0 < s_delta example_sampler \<and>
   s_rmax example_sampler / s_delta example_sampler + 2 \<le> 2 ^ 53 \<and>
   \<not> s_tempered example_sampler \<and>
   initialize_reward (\<lambda>x. x) example_sampler (init_draws example_rng) = Inr [- 1, - 1 / 2] \<and>
   length [- 1, - 1 / 2 :: real] = rdim example_sampler \<and>
   - 1 / 2 \<in> set (reward_grid (\<lambda>x. x) (s_rmax example_sampler) (s_delta example_sampler)) \<and>
   - s_rmax example_sampler \<le> - 1 / 2 \<and> - 1 / 2 < s_delta example_sampler"
proof -
  have h: "0 < s_rmax example_sampler" "0 < s_delta example_sampler"
    "s_rmax example_sampler / s_delta example_sampler + 2 \<le> 2 ^ 53"
    "\<not> s_tempered example_sampler"
    by (simp_all add: example_sampler_def)
  from initialize_reward_below_step [OF rounding_id h example_init] h example_init rounding_id
  show ?thesis by simp
qed

text \<open>
  With \<open>Rmax = 1\<close> and step \<open>0.5\<close> the grid is \<open>-1, -0.5, 0\<close>: no draw gives a
  component \<open>0.5\<close> or \<open>1\<close>, though both lie in \<open>[-Rmax, Rmax]\<close>, while the sampler of
  \<^verbatim>\<open>birl/iterative_birl.py\<close> returns \<open>0.5\<close> on the draw \<open>u = 0.75\<close>.
\<close>

theorem initialize_reward_misses_upper_half:
  "\<not> (\<exists>rr r. initialize_reward (\<lambda>x. x) example_sampler rr = Inr r \<and> (1 / 2 \<in> set r \<or> 1 \<in> set r))
   \<and> initialize_reward_birl example_sampler (\<lambda>_. 3 / 4) = Inr [1 / 2, 1 / 2]"
proof -
  have "\<not> (1 / 2 \<in> set r \<or> 1 \<in> set r)"
    if "initialize_reward (\<lambda>x. x) example_sampler rr = Inr r" for rr r
  proof -
    from initialize_reward_grid [OF that]
    have "set r \<subseteq> set (reward_grid (\<lambda>x. x) 1 (1 / 2))" by (simp add: example_sampler_def)
    then have "set r \<subseteq> {- 1, - 1 / 2, 0}" by (simp add: reward_grid_example)
    then show ?thesis by auto
  qed
  moreover have "initialize_reward_birl example_sampler (\<lambda>_. 3 / 4) = Inr [1 / 2, 1 / 2]"
    by (simp add: initialize_reward_birl_def example_sampler_def np_uniform_def upt_rec)
  ultimately show ?thesis by blast
qed

section \<open>Properties of the chain\<close>

lemma record_sample_trace:
  "trace (record_sample bp step rm r_new (record_accept acc d)) =
     trace d @ (if bp < step then [rm] else [])"
  by (simp add: record_sample_def record_accept_def)

lemma record_sample_walk:
  "walk (record_sample bp step rm r_new (record_accept acc d)) =
     walk d @ (if bp < step then [r_new] else [])"
  by (simp add: record_sample_def record_accept_def)

lemma record_sample_accept:
  "accept_ratios (record_sample bp step rm r_new (record_accept acc d)) =
     accept_ratios d @ (if acc then [1] else [])"
  by (simp add: record_sample_def record_accept_def)

lemma call_length:
  assumes "PolicyWalkProposal_call P tape k loc = Some (Inr (loc', k'))"
  shows "length loc' = length loc"
proof -
  from call_shape [OF assms] obtain i d where "loc' = loc[i := loc ! i + d]" by blast
  then show ?thesis by simp
qed

lemma policy_walk_step_post:
  assumes "policy_walk_step S g R p_dist QE QPi bp step st = Some (Inr st')"
  shows "step_post S g R QE QPi bp step st st'"
proof -
  let ?E = "expert_trajectory_quality S" and ?G = "generated_trajectory_quality S"
  from assms obtain r_new k' where
    c: "PolicyWalkProposal_call p_dist (prop_draws R) (pos st) (r_mean st) = Some (Inr (r_new, k'))"
    unfolding policy_walk_step_def by (auto split: option.splits sum.splits)
  from assms c obtain ratio where
    m: "mh_ratio (prior_log_p S) (s_beta S) (r_mean st) r_new QE (?E r_new) QPi (?G r_new g)
          = Inr ratio"
    unfolding policy_walk_step_def mh_ratio_logged_def Let_def by (auto split: sum.splits)
  define acc where "acc = np_gt (accept_probability (s_tempered S) ratio step) (unif R step)"
  from assms c m obtain rm where
    i: "(if acc then iterative_reward_mean (r_mean st) r_new step else Inr (r_mean st)) = Inr rm"
    and st': "st' = \<lparr>r_mean = rm,
                 data = record_sample bp step rm r_new (record_accept acc (data st)),
                 pos = k',
                 mh_calls = mh_calls st @
                   [\<lparr>c_r = r_mean st, c_r_new = r_new, c_QE = QE, c_QE_new = ?E r_new,
                     c_QPi = QPi, c_QPi_new = ?G r_new g\<rparr>]\<rparr>"
    unfolding policy_walk_step_def mh_ratio_logged_def Let_def acc_def
    by (simp split: sum.splits)
  have "mh_calls st' = mh_calls st @
          [\<lparr>c_r = r_mean st, c_r_new = r_new, c_QE = QE, c_QE_new = ?E r_new,
            c_QPi = QPi, c_QPi_new = ?G r_new g\<rparr>] \<and>
        length r_new = length (r_mean st) \<and>
        mh_ratio (prior_log_p S) (s_beta S) (r_mean st) r_new QE (?E r_new) QPi (?G r_new g)
          = Inr ratio \<and>
        (if acc
         then iterative_reward_mean (r_mean st) r_new step = Inr (r_mean st') \<and>
              accept_ratios (data st') = accept_ratios (data st) @ [1]
         else r_mean st' = r_mean st \<and> accept_ratios (data st') = accept_ratios (data st)) \<and>
        trace (data st') = trace (data st) @ (if bp < step then [r_mean st'] else []) \<and>
        walk (data st') = walk (data st) @ (if bp < step then [r_new] else [])"
    using i m call_length [OF c]
    by (simp add: st' record_sample_trace record_sample_walk record_sample_accept
        split: if_splits)
  then show ?thesis unfolding step_post_def acc_def by (intro exI)
qed

lemma policy_walk_loop_Cons:
  assumes "policy_walk_loop S g R p_dist QE QPi bp (step # steps) st = Some (Inr st')"
  obtains st1 where "policy_walk_step S g R p_dist QE QPi bp step st = Some (Inr st1)"
    and "policy_walk_loop S g R p_dist QE QPi bp steps st1 = Some (Inr st')"
  using assms by (auto split: option.splits sum.splits)



lemma policy_walk_loop_calls:
  assumes "policy_walk_loop S g R p_dist QE QPi bp steps st = Some (Inr st')"
  shows "\<exists>new. mh_calls st' = mh_calls st @ new \<and> length new = length steps \<and>
               (\<forall>c\<in>set new. c_QE c = QE \<and> c_QPi c = QPi \<and>
                  c_QE_new c = expert_trajectory_quality S (c_r_new c) \<and>
                  c_QPi_new c = generated_trajectory_quality S (c_r_new c) g)"
  using assms
proof (induction steps arbitrary: st)
  case Nil
  then show ?case by simp
next
  case (Cons step steps)
  from Cons.prems obtain st1 where
    s: "policy_walk_step S g R p_dist QE QPi bp step st = Some (Inr st1)"
    and l: "policy_walk_loop S g R p_dist QE QPi bp steps st1 = Some (Inr st')"
    by (rule policy_walk_loop_Cons)
  from policy_walk_step_post [OF s] obtain c where
    c: "mh_calls st1 = mh_calls st @ [c]" "c_QE c = QE" "c_QPi c = QPi"
      "c_QE_new c = expert_trajectory_quality S (c_r_new c)"
      "c_QPi_new c = generated_trajectory_quality S (c_r_new c) g"
    unfolding step_post_def by auto
  from Cons.IH [OF l] obtain new where
    n: "mh_calls st' = mh_calls st1 @ new" "length new = length steps"
      "\<forall>c\<in>set new. c_QE c = QE \<and> c_QPi c = QPi \<and>
          c_QE_new c = expert_trajectory_quality S (c_r_new c) \<and>
          c_QPi_new c = generated_trajectory_quality S (c_r_new c) g"
    by blast
  have "mh_calls st' = mh_calls st @ (c # new) \<and> length (c # new) = length (step # steps) \<and>
               (\<forall>c\<in>set (c # new). c_QE c = QE \<and> c_QPi c = QPi \<and>
                  c_QE_new c = expert_trajectory_quality S (c_r_new c) \<and>
                  c_QPi_new c = generated_trajectory_quality S (c_r_new c) g)"
    using c n by simp
  then show ?case by (intro exI)
qed





lemma policy_walk_loop_follows:
  assumes "policy_walk_loop S g R p_dist QE QPi bp steps st = Some (Inr st')"
  shows "\<exists>new. mh_calls st' = mh_calls st @ new \<and> follows S R steps (r_mean st) new"
  using assms
proof (induction steps arbitrary: st)
  case Nil
  then show ?case by simp
next
  case (Cons step steps)
  from Cons.prems obtain st1 where
    s: "policy_walk_step S g R p_dist QE QPi bp step st = Some (Inr st1)"
    and l: "policy_walk_loop S g R p_dist QE QPi bp steps st1 = Some (Inr st')"
    by (rule policy_walk_loop_Cons)
  from policy_walk_step_post [OF s] obtain r_new ratio where
    c: "mh_calls st1 = mh_calls st @
          [\<lparr>c_r = r_mean st, c_r_new = r_new, c_QE = QE,
            c_QE_new = expert_trajectory_quality S r_new, c_QPi = QPi,
            c_QPi_new = generated_trajectory_quality S r_new g\<rparr>]"
    and r: "mh_ratio (prior_log_p S) (s_beta S) (r_mean st) r_new QE
          (expert_trajectory_quality S r_new) QPi (generated_trajectory_quality S r_new g)
          = Inr ratio"
    and m: "if np_gt (accept_probability (s_tempered S) ratio step) (unif R step)
            then iterative_reward_mean (r_mean st) r_new step = Inr (r_mean st1) \<and>
                 accept_ratios (data st1) = accept_ratios (data st) @ [1]
            else r_mean st1 = r_mean st \<and> accept_ratios (data st1) = accept_ratios (data st)"
    unfolding step_post_def by blast
  let ?c = "\<lparr>c_r = r_mean st, c_r_new = r_new, c_QE = QE,
            c_QE_new = expert_trajectory_quality S r_new, c_QPi = QPi,
            c_QPi_new = generated_trajectory_quality S r_new g\<rparr>"
  from Cons.IH [OF l] obtain new where
    n: "mh_calls st' = mh_calls st1 @ new" "follows S R steps (r_mean st1) new"
    by blast
  have f: "follows S R (step # steps) (r_mean st) (?c # new)"
  proof (cases "np_gt (accept_probability (s_tempered S) ratio step) (unif R step)")
    case True
    with m have "iterative_reward_mean (r_mean st) r_new step = Inr (r_mean st1)" by simp
    with True n(2) r show ?thesis by simp
  next
    case False
    with m have "r_mean st1 = r_mean st" by simp
    with False n(2) r show ?thesis by simp
  qed
  have "mh_calls st' = mh_calls st @ (?c # new) \<and>
        follows S R (step # steps) (r_mean st) (?c # new)"
    using c n(1) f by simp
  then show ?case by (intro exI)
qed

lemma policy_walk_Inr:
  assumes "policy_walk fl S g R d = Some (Inr (r, st))"
  obtains r0 stl where "initialize_reward fl S (init_draws R) = Inr r0"
    and "policy_walk_loop S g R \<lparr>dim = length r0, delta = s_delta S, bounded = True\<rparr>
           (expert_trajectory_quality S r0) (generated_trajectory_quality S r0 g)
           (burn_point fl (s_mcmc_iter S) (s_burn S)) [1..s_mcmc_iter S]
           \<lparr>r_mean = r0,
             data = d\<lparr>qloss := qloss d @ [qloss_value (expert_trajectory_quality S r0)
                                              (generated_trajectory_quality S r0 g)]\<rparr>,
             pos = 0, mh_calls = []\<rparr> = Some (Inr stl)"
    and "r = r_mean stl"
    and "st = stl\<lparr>data := (data stl)\<lparr>iter_rewards := iter_rewards (data stl) @ [r_mean stl]\<rparr>\<rparr>"
  using assms unfolding policy_walk_def Let_def
  by (auto split: sum.splits option.splits)




text \<open>
  The carry happens: for \<open>mcmc_iter = 125\<close> and \<open>burn\<close> the double nearest to
  \<open>2.4\<close>, which is below \<open>2.4\<close>, the product rounds to \<open>300\<close> and the threshold
  is \<open>3\<close>, though the exact quotient is below \<open>3\<close>.
\<close>

lemma burn_point_carry:
  assumes "rounding fl" "fl (125 * b) = 300"
  shows "burn_point fl 125 b = 3"
proof -
  have "fl (real_of_int 125) = real_of_int 125" by (rule rounding_int [OF assms(1)]) simp
  moreover have "fl (real_of_int 3) = real_of_int 3" by (rule rounding_int [OF assms(1)]) simp
  ultimately show ?thesis using assms(2) by (simp add: burn_point_def py_int_def)
qed


text \<open>
  C10: throughout one \<^verbatim>\<open>_policy_walk\<close> invocation there is one call of \<^verbatim>\<open>_mh_ratio\<close>
  per step \<open>1..mcmc_iter\<close>. The \<open>QE\<close> and \<open>QPi\<close> every call receives for the
  current reward are the ones computed at the initial reward, while \<open>QE_new\<close> and
  \<open>QPi_new\<close> are computed at the proposal of that call; hence the \<^verbatim>\<open>logsumexp\<close> behind
  the denominator's \<open>lk\<close> is the same at every call, while the current reward \<open>r\<close>,
  at which the prior term \<open>p\<close> is evaluated, is the running mean of that step: the
  initial reward at first, replaced by the incremental mean after each accepted step.
\<close>

theorem fixed_current_quality:
  assumes "policy_walk fl S g R d = Some (Inr (r, st))"
    and "initialize_reward fl S (init_draws R) = Inr r0"
  shows "length (mh_calls st) = nat (s_mcmc_iter S) \<and>
         (\<forall>c\<in>set (mh_calls st).
            c_QE c = expert_trajectory_quality S r0 \<and>
            c_QPi c = generated_trajectory_quality S r0 g \<and>
            c_QE_new c = expert_trajectory_quality S (c_r_new c) \<and>
            c_QPi_new c = generated_trajectory_quality S (c_r_new c) g \<and>
            logsumexp (z_list (s_beta S) (c_QE c) (c_QPi c)) =
              logsumexp (z_list (s_beta S) (expert_trajectory_quality S r0)
                                          (generated_trajectory_quality S r0 g))) \<and>
         follows S R [1..s_mcmc_iter S] r0 (mh_calls st)"
proof -
  from assms(1) obtain r0' stl where
    i: "initialize_reward fl S (init_draws R) = Inr r0'"
    and l: "policy_walk_loop S g R \<lparr>dim = length r0', delta = s_delta S, bounded = True\<rparr>
           (expert_trajectory_quality S r0') (generated_trajectory_quality S r0' g)
           (burn_point fl (s_mcmc_iter S) (s_burn S)) [1..s_mcmc_iter S]
           \<lparr>r_mean = r0',
             data = d\<lparr>qloss := qloss d @ [qloss_value (expert_trajectory_quality S r0')
                                              (generated_trajectory_quality S r0' g)]\<rparr>,
             pos = 0, mh_calls = []\<rparr> = Some (Inr stl)"
    and st: "st = stl\<lparr>data := (data stl)\<lparr>iter_rewards := iter_rewards (data stl) @ [r_mean stl]\<rparr>\<rparr>"
    by (rule policy_walk_Inr)
  from i assms(2) have r0: "r0' = r0" by simp
  from policy_walk_loop_calls [OF l] obtain new where
    "mh_calls stl = [] @ new" "length new = length [1..s_mcmc_iter S]"
    "\<forall>c\<in>set new. c_QE c = expert_trajectory_quality S r0' \<and>
                   c_QPi c = generated_trajectory_quality S r0' g \<and>
                   c_QE_new c = expert_trajectory_quality S (c_r_new c) \<and>
                   c_QPi_new c = generated_trajectory_quality S (c_r_new c) g"
    by auto
  moreover from policy_walk_loop_follows [OF l]
  have "follows S R [1..s_mcmc_iter S] r0' (mh_calls stl)"
    by simp
  ultimately show ?thesis using st r0 by simp
qed


text \<open>
  A concrete run of two accepted steps, the first of them burnt. The qualities of the
  current reward stay those of the initial reward \<open>[-1, -1/2]\<close> in both calls, though
  the running mean is \<open>[-1/2, -1/2]\<close> at the second.
\<close>

lemma example_call:
  assumes "k < length loc" "- 1 \<le> loc ! k + 1 / 2" "loc ! k + 1 / 2 \<le> 1"
  shows "PolicyWalkProposal_call \<lparr>dim = 2, delta = 1 / 2, bounded = True\<rparr>
           (\<lambda>k. (True, k)) k loc = Some (Inr (loc[k := loc ! k + 1 / 2], Suc k))"
  using call_first [of "\<lparr>dim = 2, delta = 1 / 2, bounded = True\<rparr>" "\<lambda>k. (True, k)" k loc] assms
  by (simp add: valid_draw_def signed_delta_def)

lemma example_ratio:
  "mh_ratio (\<lambda>r. map (\<lambda>x. - 1) r) 1 [x1, x2] [y1, y2] [e] [q] [[0]] [[0]]
     = Inr (np_div (q - 2) (e - 2))"
  by (simp add: mh_ratio_def logsumexp_def z_list_def z_middle_def z_inner_def)

lemma example_step1:
  "policy_walk_step example_sampler () example_rng \<lparr>dim = 2, delta = 1 / 2, bounded = True\<rparr>
     [- 3 / 2] [[0]] 1 1
     \<lparr>r_mean = [- 1, - 1 / 2],
       data = \<lparr>qloss = [- 3 / 2], trace = [], walk = [], accept_ratios = [], iter_rewards = []\<rparr>,
       pos = 0, mh_calls = []\<rparr> =
   Some (Inr \<lparr>r_mean = [- 1 / 2, - 1 / 2],
       data = \<lparr>qloss = [- 3 / 2], trace = [], walk = [], accept_ratios = [1], iter_rewards = []\<rparr>,
       pos = 1, mh_calls = [example_calls ! 0]\<rparr>)"
proof -
  have p: "prop_draws example_rng = (\<lambda>k. (True, k))" "unif example_rng 1 = 1 / 2"
    by (simp_all add: example_rng_def)
  have s: "prior_log_p example_sampler = (\<lambda>r. map (\<lambda>x. - 1) r)" "s_tempered example_sampler = False"
    "expert_trajectory_quality example_sampler = (\<lambda>r. [sum_list r])"
    "generated_trajectory_quality example_sampler = (\<lambda>r g. [[0]])" "s_beta example_sampler = 1"
    by (simp_all add: example_sampler_def)
  have c: "PolicyWalkProposal_call \<lparr>dim = 2, delta = 1 / 2, bounded = True\<rparr>
           (\<lambda>k. (True, k)) 0 [- 1, - (1 / 2)] = Some (Inr ([- 1 / 2, - 1 / 2], 1))"
    using example_call [of 0 "[- 1, - 1 / 2]"] by simp
  show ?thesis
    unfolding policy_walk_step_def mh_ratio_logged_def
    by (simp add: p s c example_ratio np_div_def accept_probability_def Let_def
        iterative_reward_mean_def record_sample_def record_accept_def example_calls_def)
qed

lemma example_step2:
  "policy_walk_step example_sampler () example_rng \<lparr>dim = 2, delta = 1 / 2, bounded = True\<rparr>
     [- 3 / 2] [[0]] 1 2
     \<lparr>r_mean = [- 1 / 2, - 1 / 2],
       data = \<lparr>qloss = [- 3 / 2], trace = [], walk = [], accept_ratios = [1], iter_rewards = []\<rparr>,
       pos = 1, mh_calls = [example_calls ! 0]\<rparr> =
   Some (Inr \<lparr>r_mean = [- 1 / 2, - 1 / 4],
       data = \<lparr>qloss = [- 3 / 2], trace = [[- 1 / 2, - 1 / 4]], walk = [[- 1 / 2, 0]],
               accept_ratios = [1, 1], iter_rewards = []\<rparr>,
       pos = 2, mh_calls = example_calls\<rparr>)"
proof -
  have p: "prop_draws example_rng = (\<lambda>k. (True, k))" "unif example_rng 2 = 1 / 2"
    by (simp_all add: example_rng_def)
  have s: "prior_log_p example_sampler = (\<lambda>r. map (\<lambda>x. - 1) r)" "s_tempered example_sampler = False"
    "expert_trajectory_quality example_sampler = (\<lambda>r. [sum_list r])"
    "generated_trajectory_quality example_sampler = (\<lambda>r g. [[0]])" "s_beta example_sampler = 1"
    by (simp_all add: example_sampler_def)
  have c: "PolicyWalkProposal_call \<lparr>dim = 2, delta = 1 / 2, bounded = True\<rparr>
           (\<lambda>k. (True, k)) (Suc 0) [- (1 / 2), - (1 / 2)] = Some (Inr ([- 1 / 2, 0], 2))"
    using example_call [of 1 "[- 1 / 2, - 1 / 2]"] by simp
  show ?thesis
    unfolding policy_walk_step_def mh_ratio_logged_def
    by (simp add: p s c example_ratio np_div_def accept_probability_def Let_def
        iterative_reward_mean_def record_sample_def record_accept_def example_calls_def)
qed

lemma example_burn_point: "burn_point (\<lambda>x. x) 2 50 = 1"
  by (simp add: burn_point_def py_int_def)

lemma example_run:
  "policy_walk (\<lambda>x. x) example_sampler () example_rng no_diagnostics
     = Some (Inr ([- 1 / 2, - 1 / 4], example_final))"
proof -
  let ?P = "\<lparr>dim = 2, delta = 1 / 2, bounded = True\<rparr>"
  let ?st0 = "\<lparr>r_mean = [- 1, - 1 / 2],
       data = \<lparr>qloss = [- 3 / 2], trace = [], walk = [], accept_ratios = [], iter_rewards = []\<rparr>,
       pos = 0, mh_calls = []\<rparr>"
  let ?st2 = "\<lparr>r_mean = [- 1 / 2, - 1 / 4],
       data = \<lparr>qloss = [- 3 / 2], trace = [[- 1 / 2, - 1 / 4]], walk = [[- 1 / 2, 0]],
               accept_ratios = [1, 1], iter_rewards = []\<rparr>,
       pos = 2, mh_calls = example_calls\<rparr>"
  have u: "[1..2::int] = [1, 2]" by (simp add: upto_rec1)
  have l: "policy_walk_loop example_sampler () example_rng ?P [- 3 / 2] [[0]] 1 [1..2] ?st0
      = Some (Inr ?st2)"
    unfolding u
    by (simp only: policy_walk_loop.simps example_step1 example_step2 option.case sum.case)
  have f: "expert_trajectory_quality example_sampler [- 1, - 1 / 2] = [- 3 / 2]"
    "generated_trajectory_quality example_sampler [- 1, - 1 / 2] () = [[0]]"
    "s_delta example_sampler = 1 / 2" "s_mcmc_iter example_sampler = 2"
    "burn_point (\<lambda>x. x) 2 (s_burn example_sampler) = 1"
    "length [- 1, - 1 / 2 :: real] = 2"
    by (simp_all add: example_sampler_def example_burn_point)
  have d1: "no_diagnostics\<lparr>qloss := qloss no_diagnostics @ [qloss_value [- 3 / 2] [[0]]]\<rparr> =
      \<lparr>qloss = [- 3 / 2], trace = [], walk = [], accept_ratios = [], iter_rewards = []\<rparr>"
    by (simp add: no_diagnostics_def qloss_value_def)
  have "policy_walk (\<lambda>x. x) example_sampler () example_rng no_diagnostics =
      Some (Inr (r_mean ?st2,
        ?st2\<lparr>data := (data ?st2)\<lparr>iter_rewards := iter_rewards (data ?st2) @ [r_mean ?st2]\<rparr>\<rparr>))"
    unfolding policy_walk_def example_init
    by (simp only: sum.case Let_def f d1 l option.case)
  then show ?thesis by (simp add: example_final_def)
qed



theorem fixed_current_quality_witness:
  "policy_walk (\<lambda>x. x) example_sampler () example_rng no_diagnostics
     = Some (Inr ([- 1 / 2, - 1 / 4], example_final))
   \<and> initialize_reward (\<lambda>x. x) example_sampler (init_draws example_rng) = Inr [- 1, - 1 / 2]
   \<and> length (mh_calls example_final) = 2
   \<and> map c_r (mh_calls example_final) = [[- 1, - 1 / 2], [- 1 / 2, - 1 / 2]]
   \<and> map c_QE (mh_calls example_final) = [[- 3 / 2], [- 3 / 2]]
   \<and> map c_QPi (mh_calls example_final) = [[[0]], [[0]]]
   \<and> map c_QE_new (mh_calls example_final) = [[- 1], [- 1 / 2]]
   \<and> expert_trajectory_quality example_sampler [- 1, - 1 / 2] = [- 3 / 2]
   \<and> expert_trajectory_quality example_sampler [- 1 / 2, - 1 / 2] = [- 1]
   \<and> follows example_sampler example_rng [1..2] [- 1, - 1 / 2] (mh_calls example_final)"
proof -
  have c: "length (mh_calls example_final) = 2"
    "map c_r (mh_calls example_final) = [[- 1, - 1 / 2], [- 1 / 2, - 1 / 2]]"
    "map c_QE (mh_calls example_final) = [[- 3 / 2], [- 3 / 2]]"
    "map c_QPi (mh_calls example_final) = [[[0]], [[0]]]"
    "map c_QE_new (mh_calls example_final) = [[- 1], [- 1 / 2]]"
    "expert_trajectory_quality example_sampler [- 1, - 1 / 2] = [- 3 / 2]"
    "expert_trajectory_quality example_sampler [- 1 / 2, - 1 / 2] = [- 1]"
    by (simp_all add: example_final_def example_calls_def example_sampler_def)
  have e: "s_mcmc_iter example_sampler = 2" by (simp add: example_sampler_def)
  from fixed_current_quality [OF example_run example_init]
  have "follows example_sampler example_rng [1..2] [- 1, - 1 / 2] (mh_calls example_final)"
    unfolding e by simp
  with c example_run example_init show ?thesis by simp
qed

end
